theory Spec2Isabelle
  imports Main "HOL-Library.AList" "HOL-Library.Char_ord" "HOL-Library.List_Lexorder"
    "HOL-Library.Multiset"
begin

section \<open>Text primitives of the build script\<close>

text \<open>
  The script \<^verbatim>\<open>build.py\<close> works on Python text: files are opened in text mode and
  read line by line. A text is modelled as a \<^typ>\<open>string\<close>; a character stands for the
  code point of its number, so the development covers texts whose code points are below
  256. File contents are the text that Python's text-mode \<^verbatim>\<open>read\<close> delivers and
  \<^verbatim>\<open>write\<close> accepts (decoding and newline translation happen below this level).
\<close>

text \<open>
  \<^verbatim>\<open>str.isspace\<close> on one character: the code points below 256 that Python classifies
  as whitespace (tab, line feed, vertical tab, form feed, carriage return, the four
  separators 0x1C--0x1F, space, NEL and the no-break space).
\<close>

definition isspace :: "char \<Rightarrow> bool" where
  "isspace c = (of_char c \<in> {9, 10, 11, 12, 13, 28, 29, 30, 31, 32, 133, 160 :: nat})"

text \<open>\<^verbatim>\<open>str.rstrip()\<close>: drop the longest suffix of whitespace characters.\<close>

definition rstrip :: "string \<Rightarrow> string" where
  "rstrip s = rev (dropWhile isspace (rev s))"

text \<open>\<^verbatim>\<open>str.lstrip()\<close> and \<^verbatim>\<open>str.strip()\<close>, used only to state what "trimmed" means.\<close>

definition strip :: "string \<Rightarrow> string" where
  "strip s = dropWhile isspace (rstrip s)"

text \<open>
  \<^verbatim>\<open>str.replace(old, new)\<close> for a one-character \<^verbatim>\<open>old\<close>: every occurrence, from
  left to right, is replaced by \<^verbatim>\<open>new\<close>.
\<close>

fun replace :: "char \<Rightarrow> string \<Rightarrow> string \<Rightarrow> string" where
  "replace old new [] = []"
| "replace old new (c # cs) =
     (if c = old then new @ replace old new cs else c # replace old new cs)"

text \<open>The escaping of lines 23 and 51: \<^verbatim>\<open>.replace("'","''")\<close>.\<close>

definition escape :: "string \<Rightarrow> string" where
  "escape line = replace (CHR 0x27) [CHR 0x27, CHR 0x27] line"

text \<open>
  Iterating over a text file (\<^verbatim>\<open>for line in infile\<close>): the text is cut after every
  line feed; each line keeps its line feed, and a last line without one is delivered as
  it is.
\<close>

fun readlines :: "string \<Rightarrow> string list" where
  "readlines [] = []"
| "readlines (c # cs) =
     (if c = CHR ''\<newline>'' then [c] # readlines cs
      else (case readlines cs of [] \<Rightarrow> [[c]] | l # ls \<Rightarrow> (c # l) # ls))"

text \<open>
  The write statement of lines 23 and 51:
  \<^verbatim>\<open>"  put '" + line.rstrip().replace("'","''") + " ';\n"\<close>.
\<close>

definition put :: "string \<Rightarrow> string" where
  "put line = ''  put '' @ [CHR 0x27] @ escape (rstrip line) @ [CHR '' '', CHR 0x27] @ '';\<newline>''"

section \<open>Embedding of auxiliary scripts (lines 5--27)\<close>

text \<open>\<^verbatim>\<open>str.rfind\<close> for one character: the last index, or -1.\<close>

definition rfind :: "char \<Rightarrow> string \<Rightarrow> int" where
  "rfind c p =
     (if c \<in> set p then int (length p) - 1 - int (length (takeWhile (\<lambda>x. x \<noteq> c) (rev p)))
      else - 1)"

text \<open>\<^verbatim>\<open>os.path.basename\<close> and \<^verbatim>\<open>os.path.dirname\<close> on a relative POSIX path.\<close>

definition os_path_basename :: "string \<Rightarrow> string" where
  "os_path_basename p = drop (nat (rfind (CHR ''/'') p + 1)) p"

definition os_path_dirname :: "string \<Rightarrow> string" where
  "os_path_dirname p = take (nat (rfind (CHR ''/'') p)) p"

text \<open>
  \<^verbatim>\<open>os.path.splitext\<close>: the path is split at its last dot when that dot lies in the last
  component and some character of the component before it is not a dot.
\<close>

definition splitext :: "string \<Rightarrow> string \<times> string" where
  "splitext p =
     (let sepIndex = rfind (CHR ''/'') p; dotIndex = rfind (CHR ''.'') p
      in if dotIndex > sepIndex \<and>
            list_ex (\<lambda>x. x \<noteq> CHR ''.'') (drop (nat (sepIndex + 1)) (take (nat dotIndex) p))
         then (take (nat dotIndex) p, drop (nat dotIndex) p)
         else (p, []))"

text \<open>
  \<^verbatim>\<open>Path.match("*.lua")\<close> and \<^verbatim>\<open>Path.match("*.sas")\<close>: the last component ends with
  the extension.
\<close>

definition endswith :: "string \<Rightarrow> string \<Rightarrow> bool" where
  "endswith s suf = (length suf \<le> length s \<and> drop (length s - length suf) s = suf)"

definition match_ext :: "string \<Rightarrow> string \<Rightarrow> bool" where
  "match_ext ext p = endswith (os_path_basename p) ext"

text \<open>The loop of lines 22--23: one write to \<^verbatim>\<open>ml\<close> per line of \<^verbatim>\<open>infile\<close>.\<close>

fun write_puts :: "string \<Rightarrow> string list \<Rightarrow> string" where
  "write_puts ml [] = ml"
| "write_puts ml (line # rest) = write_puts (ml @ put line) rest"

text \<open>Lines 10--20: what is written to \<^verbatim>\<open>ml\<close> before the source is opened.\<close>

definition ml_head :: "string \<Rightarrow> string \<Rightarrow> string" where
  \<open>ml_head name basename =
     (let ml = [];
          ml = ml @ ''/**\<newline>'';
          ml = ml @ ''  @file '' @ name @ ''.sas\<newline>'';
          ml = ml @ ''  @brief Compiles the '' @ basename @ '' lua file\<newline>'';
          ml = ml @ ''  @details Writes '' @ basename @ '' to the work directory\<newline>'';
          ml = ml @ ''  and then includes it.\<newline>'';
          ml = ml @ ''  Usage:\<newline>\<newline>'';
          ml = ml @ ''      %'' @ name @ ''()\<newline>\<newline>'';
          ml = ml @ ''**/\<newline>\<newline>'';
          ml = ml @ ''%macro '' @ name @ ''();\<newline>'';
          ml = ml @ ''data _null_;\<newline>'';
          ml = ml @ ''  file "%sysfunc(pathname(work))/'' @ name @ ''.lua";\<newline>''
      in ml)\<close>

text \<open>Lines 24--26: what is written to \<^verbatim>\<open>ml\<close> after the loop.\<close>

definition ml_tail :: "string \<Rightarrow> string \<Rightarrow> string" where
  \<open>ml_tail name ml =
     (let ml = ml @ ''run;\<newline>'';
          ml = ml @ ''%mend;\<newline>\<newline>'';
          ml = ml @ ''%inc "%sysfunc(pathname(work))/'' @ name @ ''.lua";\<newline>''
      in ml)\<close>

text \<open>
  The text of the generated macro file for a source called \<^verbatim>\<open>basename\<close> whose text is
  \<^verbatim>\<open>infile\<close> (lines 7--26).
\<close>

definition embed :: "string \<Rightarrow> string \<Rightarrow> string" where
  "embed basename infile =
     (let name = ''ml_'' @ fst (splitext basename);
          ml = ml_head name basename;
          ml = write_puts ml (readlines infile)
      in ml_tail name ml)"

section \<open>Splicing of the web-service templates (lines 30--62)\<close>

text \<open>
  The inner loop of lines 47--51 over one source handle. \<^verbatim>\<open>stripcomment\<close> is the flag
  of the code (1 until the closing line of the header comment has been seen).
\<close>

fun strip_loop :: "nat \<Rightarrow> string \<Rightarrow> string list \<Rightarrow> string" where
  "strip_loop stripcomment outfile [] = outfile"
| "strip_loop stripcomment outfile (w # ws) =
     (if w = ''**/\<newline>'' then strip_loop 0 outfile ws
      else if stripcomment = 0 then strip_loop stripcomment (outfile @ put w) ws
      else strip_loop stripcomment outfile ws)"

text \<open>
  The lines of one source for which line 51 is executed: the same loop, collecting
  \<^verbatim>\<open>w\<close> instead of writing its statement.
\<close>

fun stripped :: "nat \<Rightarrow> string list \<Rightarrow> string list" where
  "stripped stripcomment [] = []"
| "stripped stripcomment (w # ws) =
     (if w = ''**/\<newline>'' then stripped 0 ws
      else if stripcomment = 0 then w # stripped stripcomment ws
      else stripped stripcomment ws)"

definition CommentStripper :: "string \<Rightarrow> string list" where
  "CommentStripper weboutfile = stripped 1 (readlines weboutfile)"

text \<open>Lines 45--51: the loop over the source handles, each starting with the flag at 1.\<close>

fun write_webout :: "string \<Rightarrow> string list list \<Rightarrow> string" where
  "write_webout outfile [] = outfile"
| "write_webout outfile (weboutfile # rest) =
     write_webout (strip_loop 1 outfile weboutfile) rest"

text \<open>
  Lines 41--56: the loop over the lines of the target. \<^verbatim>\<open>weboutfiles\<close> holds, for each
  source handle, the lines not yet read from it: the handles are opened once before the
  loop, and reading one to its end leaves it exhausted for a later begin marker.
\<close>

fun splice_loop :: "nat \<Rightarrow> string list list \<Rightarrow> string \<Rightarrow> string list \<Rightarrow> string" where
  "splice_loop delrow weboutfiles outfile [] = outfile"
| "splice_loop delrow weboutfiles outfile (line # rest) =
     (if line = ''/* WEBOUT BEGIN */\<newline>'' then
        splice_loop 1 (map (\<lambda>_. []) weboutfiles)
          (write_webout (outfile @ ''/* WEBOUT BEGIN */\<newline>'') weboutfiles) rest
      else if delrow = 1 \<and> line = ''/* WEBOUT END */\<newline>'' then
        splice_loop 0 weboutfiles (outfile @ ''/* WEBOUT END */\<newline>'') rest
      else if delrow = 0 then
        splice_loop delrow weboutfiles (outfile @ rstrip line @ ''\<newline>'') rest
      else splice_loop delrow weboutfiles outfile rest)"

text \<open>The new text of a target, from the texts of the target and of its sources.\<close>

definition splice :: "string \<Rightarrow> string list \<Rightarrow> string" where
  "splice infile sources = splice_loop 0 (map readlines sources) [] (readlines infile)"

section \<open>The file system and the errors of the run\<close>

text \<open>
  The file system is an association list from relative POSIX paths to nodes. The order
  of the list stands for the order in which the operating system lists a directory:
  permuting the list re-orders every directory listing. The working directory is the
  empty path and always exists.
\<close>

datatype node = File string | Dir

type_synonym filesystem = "(string \<times> node) list"

datatype error =
    FileNotFoundError string
  | IsADirectoryError string
  | NotADirectoryError string
  | NameError string

text \<open>A stage ends with the file system it leaves behind and the exception, if any.\<close>

type_synonym outcome = "filesystem \<times> error option"

text \<open>
  \<^verbatim>\<open>open(p, 'r')\<close> followed by reading: the text of the file, or the exception. A path
  that is absent raises \<^verbatim>\<open>NotADirectoryError\<close> when its directory is a regular file and
  \<^verbatim>\<open>FileNotFoundError\<close> otherwise.
\<close>

definition open_r :: "filesystem \<Rightarrow> string \<Rightarrow> error + string" where
  "open_r fs p =
     (case map_of fs p of
        None \<Rightarrow>
         (let d = os_path_dirname p
          in if d = [] then Inl (FileNotFoundError p)
             else (case map_of fs d of
                     Some (File s) \<Rightarrow> Inl (NotADirectoryError p)
                   | _ \<Rightarrow> Inl (FileNotFoundError p)))
      | Some Dir \<Rightarrow> Inl (IsADirectoryError p)
      | Some (File s) \<Rightarrow> Inr s)"

text \<open>\<^verbatim>\<open>open(p, 'w')\<close>: the file is created or truncated; its directory must exist.\<close>

definition open_w :: "filesystem \<Rightarrow> string \<Rightarrow> error + filesystem" where
  "open_w fs p =
     (case map_of fs p of
        Some Dir \<Rightarrow> Inl (IsADirectoryError p)
      | _ \<Rightarrow>
         (let d = os_path_dirname p
          in if d = [] then Inr (AList.update p (File []) fs)
             else (case map_of fs d of
                     None \<Rightarrow> Inl (FileNotFoundError p)
                   | Some (File s) \<Rightarrow> Inl (NotADirectoryError p)
                   | Some Dir \<Rightarrow> Inr (AList.update p (File []) fs))))"

text \<open>The text written through a handle, stored when the handle is flushed.\<close>

definition fs_write :: "filesystem \<Rightarrow> string \<Rightarrow> string \<Rightarrow> filesystem" where
  "fs_write fs p s = AList.update p (File s) fs"

text \<open>\<^verbatim>\<open>os.remove\<close> and \<^verbatim>\<open>os.rename\<close> on files that exist.\<close>

definition os_remove :: "string \<Rightarrow> filesystem \<Rightarrow> filesystem" where
  "os_remove p fs = AList.delete p fs"

definition os_rename :: "string \<Rightarrow> string \<Rightarrow> filesystem \<Rightarrow> filesystem" where
  "os_rename src dst fs =
     (case map_of fs src of
        None \<Rightarrow> fs
      | Some n \<Rightarrow> AList.update dst n (AList.delete src fs))"

text \<open>
  \<^verbatim>\<open>Path(d).iterdir()\<close>: the paths of the entries of directory \<^verbatim>\<open>d\<close>, files and
  directories, in the order of the operating system.
\<close>

definition iterdir :: "filesystem \<Rightarrow> string \<Rightarrow> error + string list" where
  "iterdir fs d =
     (case map_of fs d of
        None \<Rightarrow> Inl (FileNotFoundError d)
      | Some (File s) \<Rightarrow> Inl (NotADirectoryError d)
      | Some Dir \<Rightarrow> Inr (filter (\<lambda>p. os_path_dirname p = d) (map fst fs)))"

text \<open>A \<^verbatim>\<open>for\<close> loop whose body may raise: the first exception ends the loop.\<close>

fun for_each :: "('a \<Rightarrow> filesystem \<Rightarrow> outcome) \<Rightarrow> 'a list \<Rightarrow> filesystem \<Rightarrow> outcome" where
  "for_each body [] fs = (fs, None)"
| "for_each body (x # xs) fs =
     (case body x fs of
        (fs, Some e) \<Rightarrow> (fs, Some e)
      | (fs, None) \<Rightarrow> for_each body xs fs)"

section \<open>Stage 1: the embedding loop on the file system (lines 4--27)\<close>

text \<open>The body of the loop, lines 7--26, for one entry \<^verbatim>\<open>file\<close> of the listing.\<close>

definition embed_file :: "string \<Rightarrow> filesystem \<Rightarrow> outcome" where
  "embed_file file fs =
     (let basename = os_path_basename file;
          name = ''ml_'' @ fst (splitext basename);
          ml = ''lua/'' @ name @ ''.sas''
      in case open_w fs ml of
           Inl e \<Rightarrow> (fs, Some e)
         | Inr fs \<Rightarrow>
            (case open_r fs file of
               Inl e \<Rightarrow> (fs_write fs ml (ml_head name basename), Some e)
             | Inr infile \<Rightarrow> (fs_write fs ml (embed basename infile), None)))"

text \<open>
  Lines 5--27. The handle \<^verbatim>\<open>ml\<close> is closed once, after the loop (line 27); when the
  loop body never ran the name is unbound and the statement raises \<^verbatim>\<open>NameError\<close>.
\<close>

definition embed_stage :: "filesystem \<Rightarrow> outcome" where
  "embed_stage fs =
     (case iterdir fs ''lua'' of
        Inl e \<Rightarrow> (fs, Some e)
      | Inr entries \<Rightarrow>
         (let files = filter (match_ext ''.lua'') entries
          in case for_each embed_file files fs of
               (fs, Some e) \<Rightarrow> (fs, Some e)
             | (fs, None) \<Rightarrow>
                 if files = [] then (fs, Some (NameError ''ml'')) else (fs, None)))"

section \<open>Stage 2: the splicing loop on the file system (lines 30--62)\<close>

text \<open>
  The body of the loop, lines 32--62, for one target \<^verbatim>\<open>file\<close>: three sources are opened,
  then the temporary output, then the target; after the loop over the target's lines
  the target is removed and the temporary file renamed to it.
\<close>

definition splice_file :: "string \<Rightarrow> filesystem \<Rightarrow> outcome" where
  "splice_file file fs =
     (case open_r fs ''base/mp_jsonout.sas'' of
        Inl e \<Rightarrow> (fs, Some e)
      | Inr webout0 \<Rightarrow>
     (case open_r fs (if file = ''viya/mv_createwebservice.sas''
                      then ''viya/mv_webout.sas'' else ''meta/mm_webout.sas'') of
        Inl e \<Rightarrow> (fs, Some e)
      | Inr webout1 \<Rightarrow>
     (case open_r fs ''base/mf_getuser.sas'' of
        Inl e \<Rightarrow> (fs, Some e)
      | Inr webout2 \<Rightarrow>
     (case open_w fs (file @ ''TEMP'') of
        Inl e \<Rightarrow> (fs, Some e)
      | Inr fs \<Rightarrow>
     (case open_r fs file of
        Inl e \<Rightarrow> (fs, Some e)
      | Inr infile \<Rightarrow>
         (let outfile = splice infile [webout0, webout1, webout2];
              fs = fs_write fs (file @ ''TEMP'') outfile;
              fs = os_remove file fs;
              fs = os_rename (file @ ''TEMP'') file fs
          in (fs, None)))))))"

definition splice_stage :: "filesystem \<Rightarrow> outcome" where
  "splice_stage fs =
     for_each splice_file [''viya/mv_createwebservice.sas'', ''meta/mm_createwebservice.sas''] fs"

section \<open>Stage 3: concatenation (lines 64--96)\<close>

definition header :: string where
  \<open>header =
     ''\<newline>'' @
     ''/**\<newline>'' @
     ''  @file\<newline>'' @
     ''  @brief Auto-generated file\<newline>'' @
     ''  @details\<newline>'' @
     ''    This file contains all the macros in a single file - which means it can be\<newline>'' @
     ''    'included' in SAS with just 2 lines of code:\<newline>'' @
     ''\<newline>'' @
     ''      filename mc url\<newline>'' @
     ''        "https://raw.githubusercontent.com/sasjs/core/main/all.sas";\<newline>'' @
     ''      %inc mc;\<newline>'' @
     ''\<newline>'' @
     ''    The `build.py` file in the https://github.com/sasjs/core repo\<newline>'' @
     ''    is used to create this file.\<newline>'' @
     ''\<newline>'' @
     ''  @author Allan Bowe\<newline>'' @
     ''**/\<newline>'' @
     ''options noquotelenmax;\<newline>''\<close>

definition folders :: "string list" where
  "folders = [''base'', ''meta'', ''metax'', ''viya'', ''lua'']"

text \<open>
  Lines 91--93: the member files are read in the order of \<^verbatim>\<open>filenames\<close> and appended
  to the text of \<^verbatim>\<open>outfile\<close>.
\<close>

fun read_all :: "filesystem \<Rightarrow> string \<Rightarrow> string list \<Rightarrow> string \<times> error option" where
  "read_all fs outfile [] = (outfile, None)"
| "read_all fs outfile (fname # rest) =
     (case open_r fs fname of
        Inl e \<Rightarrow> (outfile, Some e)
      | Inr infile \<Rightarrow> read_all fs (outfile @ infile) rest)"

text \<open>
  The body of the loop over the folders, lines 88--95. \<^verbatim>\<open>f\<close> is the text written to
  \<^verbatim>\<open>all.sas\<close> so far; the outcome carries it along with the file system.
\<close>

definition concat_folder :: "string \<Rightarrow> filesystem \<times> string \<Rightarrow> (filesystem \<times> string) \<times> error option" where
  "concat_folder folder st =
     (case st of (fs, f) \<Rightarrow>
      (case iterdir fs folder of
         Inl e \<Rightarrow> ((fs, f), Some e)
       | Inr entries \<Rightarrow>
          (let filenames = sort (filter (match_ext ''.sas'') entries);
               mc = ''mc_'' @ folder @ ''.sas''
           in case open_w fs mc of
                Inl e \<Rightarrow> ((fs, f), Some e)
              | Inr fs \<Rightarrow>
                 (case read_all fs [] filenames of
                    (outfile, Some e) \<Rightarrow> ((fs_write fs mc outfile, f), Some e)
                  | (outfile, None) \<Rightarrow>
                     (let fs = fs_write fs mc outfile
                      in case open_r fs mc of
                           Inl e \<Rightarrow> ((fs, f), Some e)
                         | Inr c \<Rightarrow> ((fs, f @ c), None))))))"

fun concat_loop :: "string list \<Rightarrow> filesystem \<times> string \<Rightarrow> (filesystem \<times> string) \<times> error option" where
  "concat_loop [] st = (st, None)"
| "concat_loop (folder # rest) st =
     (case concat_folder folder st of
        (st, Some e) \<Rightarrow> (st, Some e)
      | (st, None) \<Rightarrow> concat_loop rest st)"

text \<open>
  Lines 84--96. The text of \<^verbatim>\<open>all.sas\<close> reaches the file system when the handle is
  closed, or when the run ends with an exception.
\<close>

definition concat_stage :: "filesystem \<Rightarrow> outcome" where
  "concat_stage fs =
     (case open_w fs ''all.sas'' of
        Inl e \<Rightarrow> (fs, Some e)
      | Inr fs \<Rightarrow>
         (case concat_loop folders (fs, header) of
            ((fs, f), r) \<Rightarrow> (fs_write fs ''all.sas'' f, r)))"

section \<open>The whole run\<close>

definition and_then :: "outcome \<Rightarrow> (filesystem \<Rightarrow> outcome) \<Rightarrow> outcome" where
  "and_then r stage = (case r of (fs, Some e) \<Rightarrow> (fs, Some e) | (fs, None) \<Rightarrow> stage fs)"

definition build :: "filesystem \<Rightarrow> outcome" where
  "build fs = and_then (and_then (embed_stage fs) splice_stage) concat_stage"

section \<open>The claims' own readings, for comparison with the code\<close>

text \<open>
  A line without its line terminator, and the write statement that would reproduce a
  line verbatim (quotes doubled, nothing else changed). These follow the wording of the
  specification, not the code, and are used only to compare the two.
\<close>

definition chomp :: "string \<Rightarrow> string" where
  "chomp line = (if line \<noteq> [] \<and> last line = CHR ''\<newline>'' then butlast line else line)"

definition put_verbatim :: "string \<Rightarrow> string" where
  "put_verbatim line =
     ''  put '' @ [CHR 0x27] @ escape (chomp line) @ [CHR '' '', CHR 0x27] @ '';\<newline>''"

text \<open>
  The comment stripper as the specification words it: everything up to and including
  the first line whose trimmed content is the closing token is discarded, all later
  lines are returned unchanged.
\<close>

fun strip_spec :: "string list \<Rightarrow> string list" where
  "strip_spec [] = []"
| "strip_spec (w # ws) = (if strip w = ''**/'' then ws else strip_spec ws)"

text \<open>
  The per-category aggregate as the specification words it: the texts of the members
  of the category that match \<^verbatim>\<open>*.sas\<close>, in sorted order of their paths, one after the
  other. \<open>listing\<close> and \<open>read_text\<close> are the listing of a directory and the text of a
  file where they exist.
\<close>

definition listing :: "filesystem \<Rightarrow> string \<Rightarrow> string list" where
  "listing fs folder = (case iterdir fs folder of Inr entries \<Rightarrow> entries | Inl e \<Rightarrow> [])"

definition read_text :: "filesystem \<Rightarrow> string \<Rightarrow> string" where
  "read_text fs p = (case open_r fs p of Inr s \<Rightarrow> s | Inl e \<Rightarrow> [])"

definition category :: "filesystem \<Rightarrow> string \<Rightarrow> string" where
  "category fs folder =
     concat (map (read_text fs) (sort (filter (match_ext ''.sas'') (listing fs folder))))"

text \<open>
  Two file systems that hold the same nodes under the same paths and differ at most in
  the order of their entries, that is, in the order of every directory listing.
\<close>

definition reordered :: "filesystem \<Rightarrow> filesystem \<Rightarrow> bool" where
  "reordered fs fs2 = (map_of fs = map_of fs2 \<and> mset (map fst fs) = mset (map fst fs2))"

text \<open>
  What the concatenation stage leaves untouched: every path below a directory, and the
  listing of each of the five folders.
\<close>

definition untouched :: "filesystem \<Rightarrow> filesystem \<Rightarrow> bool" where
  "untouched fs0 fs =
     ((\<forall>p. os_path_dirname p \<noteq> [] \<longrightarrow> map_of fs p = map_of fs0 p)
      \<and> (\<forall>d \<in> set folders. iterdir fs d = iterdir fs0 d))"

section \<open>Stored bytes and the text read from them\<close>

text \<open>
  The script opens every file in text mode with the default \<^verbatim>\<open>newline\<close> argument. A read
  then delivers the stored bytes decoded, with every CR LF pair and every lone CR
  replaced by LF; on POSIX a write stores LF as it is. The file systems of this
  development hold the text so delivered. \<open>universal_newlines\<close> is the replacement, and
  \<open>text_mode\<close> turns a disk of stored bytes, all of them ASCII so that decoding changes
  nothing, into the file system of texts that the script reads.
\<close>

fun universal_newlines :: "string \<Rightarrow> string" where
  "universal_newlines [] = []"
| "universal_newlines [c] = (if c = CHR 0x0D then [CHR ''\<newline>''] else [c])"
| "universal_newlines (c # d # cs) =
     (if c = CHR 0x0D \<and> d = CHR ''\<newline>'' then CHR ''\<newline>'' # universal_newlines cs
      else if c = CHR 0x0D then CHR ''\<newline>'' # universal_newlines (d # cs)
      else c # universal_newlines (d # cs))"

definition text_mode :: "filesystem \<Rightarrow> filesystem" where
  "text_mode disk =
     map (\<lambda>(p, n). (p, case n of File s \<Rightarrow> File (universal_newlines s) | Dir \<Rightarrow> Dir)) disk"

text \<open>
  The per-category aggregate as claim C7 words it: the stored contents of all member
  files of the category, in sorted order of their names, one after the other.
\<close>

definition raw_category :: "filesystem \<Rightarrow> string \<Rightarrow> string" where
  "raw_category disk folder = concat (map (read_text disk) (sort (listing disk folder)))"

section \<open>File handles: what the script opens and closes\<close>















section \<open>Properties of the text primitives\<close>

lemma replace_concat_map:
  "replace old new s = concat (map (\<lambda>c. if c = old then new else [c]) s)"
  by (induction s) simp_all

lemma escape_concat_map:
  "escape s = concat (map (\<lambda>c. if c = CHR 0x27 then [CHR 0x27, CHR 0x27] else [c]) s)"
  by (simp add: escape_def replace_concat_map)

lemma escape_append: "escape (xs @ ys) = escape xs @ escape ys"
  by (simp add: escape_concat_map)

lemma set_escape: "set (escape s) = set s"
  by (induction s) (auto simp: escape_def)

lemma count_escape: "count_list (escape s) (CHR 0x27) = 2 * count_list s (CHR 0x27)"
  by (induction s) (simp_all add: escape_def)

lemma filter_escape:
  "filter (\<lambda>c. c \<noteq> CHR 0x27) (escape s) = filter (\<lambda>c. c \<noteq> CHR 0x27) s"
  by (induction s) (simp_all add: escape_def)

lemma length_escape: "length (escape s) = length s + count_list s (CHR 0x27)"
  by (induction s) (simp_all add: escape_def)

lemma isspace_newline: "isspace (CHR ''\<newline>'')"
  by (simp add: isspace_def)

lemma rstrip_snoc: "rstrip (s @ [c]) = (if isspace c then rstrip s else s @ [c])"
  by (simp add: rstrip_def)

lemma rstrip_Nil: "rstrip [] = []"
  by (simp add: rstrip_def)

lemma set_rstrip: "set (rstrip s) \<subseteq> set s"
  unfolding rstrip_def using set_dropWhileD by fastforce

lemma length_rstrip: "length (rstrip s) \<le> length s"
  by (simp add: rstrip_def length_dropWhile_le[of isspace "rev s", simplified])

lemma rstrip_id_iff: "rstrip s = s \<longleftrightarrow> (s = [] \<or> \<not> isspace (last s))"
proof (cases s rule: rev_cases)
  case Nil
  then show ?thesis by (simp add: rstrip_Nil)
next
  case (snoc xs x)
  have "rstrip xs \<noteq> xs @ [x]"
    using length_rstrip[of xs] by (auto dest: arg_cong[where f=length])
  with snoc show ?thesis by (simp add: rstrip_snoc)
qed

lemma concat_readlines: "concat (readlines s) = s"
  by (induction s) (auto split: list.splits)

lemma readlines_eq_Nil: "readlines s = [] \<longleftrightarrow> s = []"
  by (induction s) (auto split: list.splits)

lemma readlines_no_newline:
  "CHR ''\<newline>'' \<notin> set l \<Longrightarrow> readlines l = (if l = [] then [] else [l])"
  by (induction l) (auto split: list.splits)

lemma readlines_first:
  "CHR ''\<newline>'' \<notin> set l \<Longrightarrow> readlines (l @ CHR ''\<newline>'' # rest) = (l @ ''\<newline>'') # readlines rest"
  by (induction l) (auto split: list.splits)

lemma readlines_shape:
  "l \<in> set (readlines s) \<Longrightarrow> l \<noteq> [] \<and> CHR ''\<newline>'' \<notin> set (butlast l)"
proof (induction s arbitrary: l)
  case Nil
  then show ?case by simp
next
  case (Cons c cs)
  show ?case
  proof (cases "c = CHR ''\<newline>''")
    case True
    with Cons show ?thesis by auto
  next
    case False
    show ?thesis
    proof (cases "readlines cs")
      case Nil
      with Cons.prems False show ?thesis by auto
    next
      case (Cons k ks)
      with Cons.prems False have "l = c # k \<or> l \<in> set ks" by auto
      moreover have "k \<noteq> [] \<and> CHR ''\<newline>'' \<notin> set (butlast k)"
        using Cons.IH[of k] Cons by simp
      moreover have "l \<in> set ks \<Longrightarrow> l \<noteq> [] \<and> CHR ''\<newline>'' \<notin> set (butlast l)"
        using Cons.IH[of l] Cons by simp
      ultimately show ?thesis using False by auto
    qed
  qed
qed

lemma rstrip_line_no_newline:
  assumes "l \<in> set (readlines s)"
  shows "CHR ''\<newline>'' \<notin> set (rstrip l)"
proof -
  from readlines_shape[OF assms] have ne: "l \<noteq> []" and bl: "CHR ''\<newline>'' \<notin> set (butlast l)"
    by simp_all
  from ne have l: "butlast l @ [last l] = l" by simp
  show ?thesis
  proof (cases "isspace (last l)")
    case True
    have "rstrip (butlast l @ [last l]) = rstrip (butlast l)"
      using True by (simp only: rstrip_snoc if_True)
    then have "rstrip l = rstrip (butlast l)" by (simp only: l)
    with bl set_rstrip[of "butlast l"] show ?thesis by auto
  next
    case False
    then have nl: "last l \<noteq> CHR ''\<newline>''" using isspace_newline by auto
    have r: "rstrip l = l" using False ne by (simp only: rstrip_id_iff) simp
    have "set (butlast l @ [last l]) = set (butlast l) \<union> {last l}" by simp
    then have "set l = set (butlast l) \<union> {last l}" by (simp only: l)
    with nl bl r show ?thesis by auto
  qed
qed

lemma write_puts_eq: "write_puts ml ls = ml @ concat (map put ls)"
  by (induction ls arbitrary: ml) simp_all


lemma put_snoc:
  "put l = (''  put '' @ [CHR 0x27] @ escape (rstrip l) @ [CHR '' '', CHR 0x27] @ '';'') @ ''\<newline>''"
  by (simp add: put_def)

lemma put_newline_free:
  "CHR ''\<newline>'' \<notin> set (rstrip l) \<Longrightarrow>
   CHR ''\<newline>'' \<notin> set (''  put '' @ [CHR 0x27] @ escape (rstrip l) @ [CHR '' '', CHR 0x27] @ '';'')"
  by (simp add: set_escape)

lemma readlines_concat_terminated:
  "(\<And>l. l \<in> set ls \<Longrightarrow> \<exists>x. l = x @ ''\<newline>'' \<and> CHR ''\<newline>'' \<notin> set x) \<Longrightarrow>
   readlines (concat ls @ rest) = ls @ readlines rest"
proof (induction ls)
  case Nil
  then show ?case by simp
next
  case (Cons l ls)
  from Cons.prems[of l] obtain x where x: "l = x @ ''\<newline>''" "CHR ''\<newline>'' \<notin> set x"
    by auto
  have ih: "readlines (concat ls @ rest) = ls @ readlines rest"
    using Cons.IH Cons.prems by simp
  have "readlines (concat (l # ls) @ rest) = readlines (x @ CHR ''\<newline>'' # (concat ls @ rest))"
    using x(1) by simp
  also have "\<dots> = (x @ ''\<newline>'') # readlines (concat ls @ rest)"
    using x(2) by (rule readlines_first)
  finally show ?case using ih x(1) by simp
qed

lemma readlines_puts:
  "readlines (concat (map put (readlines s)) @ rest) = map put (readlines s) @ readlines rest"
proof (rule readlines_concat_terminated)
  fix l assume "l \<in> set (map put (readlines s))"
  then obtain k where k: "k \<in> set (readlines s)" "l = put k" by auto
  from put_newline_free[OF rstrip_line_no_newline[OF k(1)]] put_snoc[of k] k(2)
  show "\<exists>x. l = x @ ''\<newline>'' \<and> CHR ''\<newline>'' \<notin> set x"
    by (intro exI[of _ "''  put '' @ [CHR 0x27] @ escape (rstrip k) @ [CHR '' '', CHR 0x27] @ '';''"] conjI) simp_all
qed

lemma isspace_simps:
  "isspace (CHR '' '')" "isspace (CHR 0x09)" "\<not> isspace (CHR 0x27)" "\<not> isspace (CHR '')'')"
  "\<not> isspace (CHR ''1'')" "\<not> isspace (CHR '';'')" "\<not> isspace (CHR ''/'')"
  by (simp_all add: isspace_def)

section \<open>The literal escaper\<close>

text \<open>
  Claim C4. For every text line \<open>L\<close>, the empty line included, the escape operation
  replaces each single quote by two single quotes and maps every other character to
  itself, position by position; so the result has twice as many single quotes as \<open>L\<close>,
  the same characters otherwise (whitespace at either end included), and a length that
  grows by the number of quotes. The line \<^verbatim>\<open>it's\<close> becomes \<^verbatim>\<open>it''s\<close>.
\<close>

theorem escape_doubles_quotes:
  "escape L = concat (map (\<lambda>c. if c = CHR 0x27 then [CHR 0x27, CHR 0x27] else [c]) L)
   \<and> count_list (escape L) (CHR 0x27) = 2 * count_list L (CHR 0x27)
   \<and> filter (\<lambda>c. c \<noteq> CHR 0x27) (escape L) = filter (\<lambda>c. c \<noteq> CHR 0x27) L
   \<and> length (escape L) = length L + count_list L (CHR 0x27)
   \<and> escape [] = []
   \<and> escape ''it's'' = ''it'' @ [CHR 0x27, CHR 0x27] @ ''s''"
proof -
  have a: "escape [] = []" by (simp add: escape_def)
  have b: "escape ''it's'' = ''it'' @ [CHR 0x27, CHR 0x27] @ ''s''" by (simp add: escape_def)
  show ?thesis
    using escape_concat_map[of L] count_escape[of L] filter_escape[of L] length_escape[of L] a b
    by blast
qed

section \<open>The file embedder\<close>

lemma embed_eq:
  "embed basename infile =
     ml_head (''ml_'' @ fst (splitext basename)) basename
     @ concat (map put (readlines infile))
     @ ml_tail (''ml_'' @ fst (splitext basename)) []"
  by (simp add: embed_def Let_def write_puts_eq ml_tail_def)

lemma rstrip_eval1: "rstrip ''x = 1  \<newline>'' = ''x = 1''"
  by (simp add: rstrip_def isspace_def)

lemma put_eval1: "put ''x = 1  \<newline>'' = ''  put 'x = 1 ';\<newline>''"
  by (simp add: put_def rstrip_eval1 escape_def)

lemma put_verbatim_eval1: "put_verbatim ''x = 1  \<newline>'' = ''  put 'x = 1   ';\<newline>''"
  by (simp add: put_verbatim_def chomp_def escape_def)

lemma splitext_example: "splitext ''example.lua'' = (''example'', ''.lua'')"
  by (simp add: splitext_def rfind_def)


lemma readlines_example:
  "readlines ''print(\"hi\")\<newline>return 1'' = [''print(\"hi\")\<newline>'', ''return 1'']"
  by simp

lemma put_example1: "put ''print(\"hi\")\<newline>'' = ''  put 'print(\"hi\") ';\<newline>''"
  by (simp add: put_def rstrip_def isspace_def escape_def)

lemma put_example2: "put ''return 1'' = ''  put 'return 1 ';\<newline>''"
  by (simp add: put_def rstrip_def isspace_def escape_def)

lemma put_verbatim_if: "rstrip line = chomp line \<Longrightarrow> put line = put_verbatim line"
  by (simp add: put_def put_verbatim_def)

text \<open>
  Claim C3 as stated fails where a line carries trailing whitespace: the statement
  written for the line \<^verbatim>\<open>x = 1\<close> followed by two blanks holds \<^verbatim>\<open>x = 1\<close> and one
  blank, not the line as it stands.
\<close>

theorem embed_verbatim_counterexample:
  "embed ''t.lua'' ''x = 1  \<newline>'' =
     ml_head ''ml_t'' ''t.lua'' @ ''  put 'x = 1 ';\<newline>'' @ ml_tail ''ml_t'' []
   \<and> embed ''t.lua'' ''x = 1  \<newline>'' \<noteq>
     ml_head ''ml_t'' ''t.lua'' @ concat (map put_verbatim (readlines ''x = 1  \<newline>''))
       @ ml_tail ''ml_t'' []"
proof -
  have s: "splitext ''t.lua'' = (''t'', ''.lua'')" by (simp add: splitext_def rfind_def)
  have r: "readlines ''x = 1  \<newline>'' = [''x = 1  \<newline>'']" by simp
  have e: "embed ''t.lua'' ''x = 1  \<newline>'' =
     ml_head ''ml_t'' ''t.lua'' @ ''  put 'x = 1 ';\<newline>'' @ ml_tail ''ml_t'' []"
    unfolding embed_eq r s by (simp add: put_eval1)
  have "(''  put 'x = 1 ';\<newline>'' :: string) \<noteq> ''  put 'x = 1   ';\<newline>''" by simp
  then show ?thesis unfolding e r by (simp add: put_verbatim_eval1)
qed

text \<open>
  Claim C3, amended. For every source text the generated file is the fixed head, then one
  write statement per line of the source, in the order of the lines, then the fixed
  tail; read back line by line, the body is exactly these \<open>N\<close> statements. Each statement
  wraps the line with its trailing whitespace (line terminator included) stripped and
  its quotes doubled; a line without trailing whitespace is reproduced verbatim. The
  two-line file \<^verbatim>\<open>print("hi")\<close>, \<^verbatim>\<open>return 1\<close> yields the two statements for these lines.
\<close>

theorem embed_statements:
  "embed basename infile =
     ml_head (''ml_'' @ fst (splitext basename)) basename
     @ concat (map put (readlines infile))
     @ ml_tail (''ml_'' @ fst (splitext basename)) []
   \<and> readlines (concat (map put (readlines infile))) = map put (readlines infile)
   \<and> length (map put (readlines infile)) = length (readlines infile)
   \<and> put line = ''  put '' @ [CHR 0x27] @ escape (rstrip line) @ [CHR '' '', CHR 0x27] @ '';\<newline>''
   \<and> (rstrip line = chomp line \<longrightarrow> put line = put_verbatim line)
   \<and> embed ''example.lua'' ''print(\"hi\")\<newline>return 1'' =
       ml_head ''ml_example'' ''example.lua''
       @ ''  put 'print(\"hi\") ';\<newline>'' @ ''  put 'return 1 ';\<newline>''
       @ ml_tail ''ml_example'' []"
proof -
  have a: "readlines (concat (map put (readlines infile))) = map put (readlines infile)"
    using readlines_puts[of infile "[]"] by simp
  have b: "embed ''example.lua'' ''print(\"hi\")\<newline>return 1'' =
       ml_head ''ml_example'' ''example.lua''
       @ ''  put 'print(\"hi\") ';\<newline>'' @ ''  put 'return 1 ';\<newline>''
       @ ml_tail ''ml_example'' []"
    unfolding embed_eq readlines_example splitext_example
    by (simp add: put_example1 put_example2)
  show ?thesis
    using embed_eq[of basename infile] a b put_verbatim_if[of line]
    by (simp add: put_def)
qed

text \<open>The hypothesis of the verbatim case holds for the line \<^verbatim>\<open>return 1\<close>.\<close>

theorem embed_statements_witness:
  "rstrip ''return 1'' = chomp ''return 1'' \<and> put ''return 1'' = put_verbatim ''return 1''"
proof -
  have h: "rstrip ''return 1'' = chomp ''return 1''"
    by (simp add: rstrip_def isspace_def chomp_def)
  from embed_statements[of "''example.lua''" "''return 1''" "''return 1''"] h
  show ?thesis by blast
qed

section \<open>The comment stripper\<close>

lemma strip_loop_eq: "strip_loop sc out ws = out @ concat (map put (stripped sc ws))"
  by (induction ws arbitrary: sc out) simp_all

lemma stripped_0: "stripped 0 ws = filter (\<lambda>w. w \<noteq> ''**/\<newline>'') ws"
  by (induction ws) simp_all

lemma stripped_1_none: "''**/\<newline>'' \<notin> set ws \<Longrightarrow> stripped (Suc 0) ws = []"
  by (induction ws) auto

lemma stripped_1_split:
  "''**/\<newline>'' \<notin> set pre \<Longrightarrow>
   stripped (Suc 0) (pre @ ''**/\<newline>'' # post) = filter (\<lambda>w. w \<noteq> ''**/\<newline>'') post"
  by (induction pre) (auto simp: stripped_0)

lemma filter_id_notin: "x \<notin> set xs \<Longrightarrow> filter (\<lambda>w. w \<noteq> x) xs = xs"
  by (induction xs) auto

text \<open>
  Claim C2 as stated fails in two ways. A line whose trimmed content is the closing
  token but which carries a blank before its line feed is not recognised, so nothing
  is returned where the claim returns the body. And a later line that is again the
  closing token is dropped instead of being returned.
\<close>

theorem CommentStripper_counterexample:
  "CommentStripper ''/**\<newline>**/ \<newline>body\<newline>'' = []
   \<and> strip_spec (readlines ''/**\<newline>**/ \<newline>body\<newline>'') = [''body\<newline>'']
   \<and> CommentStripper ''**/\<newline>a\<newline>**/\<newline>b\<newline>'' = [''a\<newline>'', ''b\<newline>'']
   \<and> strip_spec (readlines ''**/\<newline>a\<newline>**/\<newline>b\<newline>'')
       = [''a\<newline>'', ''**/\<newline>'', ''b\<newline>'']"
  by (simp add: CommentStripper_def strip_def rstrip_def isspace_def)

text \<open>
  Claim C2, amended. The comment stripper discards every line up to and including the
  first line that is exactly the closing token followed by a line feed, and returns all
  subsequent lines unchanged and in order, provided none of them is again exactly that
  line; if no line is exactly the closing token followed by a line feed, it returns the
  empty sequence.
\<close>

theorem CommentStripper_exact:
  "(readlines f = pre @ ''**/\<newline>'' # post \<and> ''**/\<newline>'' \<notin> set pre
      \<and> ''**/\<newline>'' \<notin> set post \<longrightarrow> CommentStripper f = post)
   \<and> (''**/\<newline>'' \<notin> set (readlines f) \<longrightarrow> CommentStripper f = [])"
  by (simp add: CommentStripper_def stripped_1_none stripped_1_split filter_id_notin)

text \<open>
  Both cases at concrete files: a header of two lines followed by two body lines, and
  a file without a closing line.
\<close>

theorem CommentStripper_exact_witness:
  "readlines ''/**\<newline>**/\<newline>a\<newline>b\<newline>'' = [''/**\<newline>''] @ ''**/\<newline>'' # [''a\<newline>'', ''b\<newline>'']
   \<and> ''**/\<newline>'' \<notin> set [''/**\<newline>''] \<and> ''**/\<newline>'' \<notin> set [''a\<newline>'', ''b\<newline>'']
   \<and> CommentStripper ''/**\<newline>**/\<newline>a\<newline>b\<newline>'' = [''a\<newline>'', ''b\<newline>'']
   \<and> ''**/\<newline>'' \<notin> set (readlines ''x\<newline>'') \<and> CommentStripper ''x\<newline>'' = []"
  using CommentStripper_exact[of "''/**\<newline>**/\<newline>a\<newline>b\<newline>''" "[''/**\<newline>'']" "[''a\<newline>'', ''b\<newline>'']"]
    CommentStripper_exact[of "''x\<newline>''" "[]" "[]"]
  by simp

section \<open>Properties of the splice loop\<close>

lemma write_webout_eq: "write_webout out hs = out @ write_webout [] hs"
proof (induction hs arbitrary: out)
  case Nil
  show ?case by simp
next
  case (Cons h hs)
  have "write_webout out (h # hs) = write_webout (strip_loop (Suc 0) out h) hs" by simp
  also have "\<dots> = strip_loop (Suc 0) out h @ write_webout [] hs" by (rule Cons.IH)
  also have "strip_loop (Suc 0) out h = out @ strip_loop (Suc 0) [] h"
    by (simp add: strip_loop_eq)
  finally have "write_webout out (h # hs) = out @ strip_loop (Suc 0) [] h @ write_webout [] hs"
    by simp
  moreover have "write_webout [] (h # hs) = strip_loop (Suc 0) [] h @ write_webout [] hs"
    using Cons.IH[of "strip_loop (Suc 0) [] h"] by simp
  ultimately show ?case by simp
qed

lemma write_webout_exhausted: "write_webout out (map (\<lambda>_. []) hs) = out"
  by (induction hs) simp_all

lemma splice_loop_acc: "splice_loop d hs out ls = out @ splice_loop d hs [] ls"
proof (induction ls arbitrary: d hs out)
  case Nil
  show ?case by simp
next
  case (Cons l ls)
  consider (b) "l = ''/* WEBOUT BEGIN */\<newline>''"
    | (e) "l \<noteq> ''/* WEBOUT BEGIN */\<newline>''" "d = 1 \<and> l = ''/* WEBOUT END */\<newline>''"
    | (c) "l \<noteq> ''/* WEBOUT BEGIN */\<newline>''" "\<not> (d = 1 \<and> l = ''/* WEBOUT END */\<newline>'')" "d = 0"
    | (s) "l \<noteq> ''/* WEBOUT BEGIN */\<newline>''" "\<not> (d = 1 \<and> l = ''/* WEBOUT END */\<newline>'')" "d \<noteq> 0"
    by blast
  then show ?case
  proof cases
    case b
    then show ?thesis
      using Cons.IH[of 1 "map (\<lambda>_. []) hs" "write_webout (out @ ''/* WEBOUT BEGIN */\<newline>'') hs"]
        Cons.IH[of 1 "map (\<lambda>_. []) hs" "write_webout ([] @ ''/* WEBOUT BEGIN */\<newline>'') hs"]
        write_webout_eq[of "out @ ''/* WEBOUT BEGIN */\<newline>''" hs]
        write_webout_eq[of "''/* WEBOUT BEGIN */\<newline>''" hs]
      by simp
  next
    case e
    then show ?thesis
      using Cons.IH[of 0 hs "out @ ''/* WEBOUT END */\<newline>''"]
        Cons.IH[of 0 hs "''/* WEBOUT END */\<newline>''"]
      by simp
  next
    case c
    then show ?thesis
      using Cons.IH[of 0 hs "out @ rstrip l @ ''\<newline>''"]
        Cons.IH[of 0 hs "rstrip l @ ''\<newline>''"]
      by simp
  next
    case s
    then show ?thesis
      using Cons.IH[of d hs out] by auto
  qed
qed

lemma splice_loop_copy:
  "''/* WEBOUT BEGIN */\<newline>'' \<notin> set ls \<Longrightarrow>
   splice_loop 0 hs out ls = out @ concat (map (\<lambda>l. rstrip l @ ''\<newline>'') ls)"
  by (induction ls arbitrary: out) auto

lemma splice_loop_suppress:
  "''/* WEBOUT END */\<newline>'' \<notin> set ls \<Longrightarrow>
   splice_loop (Suc 0) (map (\<lambda>_. []) hs) out ls
     = out @ concat (filter (\<lambda>l. l = ''/* WEBOUT BEGIN */\<newline>'') ls)"
  by (induction ls arbitrary: out) (auto simp: write_webout_exhausted comp_def)

lemma splice_loop_begin:
  "splice_loop d hs out (pre @ ''/* WEBOUT BEGIN */\<newline>'' # post)
     = splice_loop (Suc 0) (map (\<lambda>_. []) hs)
         (splice_loop d hs out (pre @ [''/* WEBOUT BEGIN */\<newline>''])) post"
  by (induction pre arbitrary: d hs out) (simp_all add: comp_def)

section \<open>The template splicer on texts\<close>

lemma readlines_three:
  assumes "CHR ''\<newline>'' \<notin> set j"
  shows "readlines (''/* WEBOUT BEGIN */\<newline>'' @ j @ ''\<newline>'' @ ''/* WEBOUT END */\<newline>'')
         = [''/* WEBOUT BEGIN */\<newline>'', j @ ''\<newline>'', ''/* WEBOUT END */\<newline>'']"
proof -
  have "readlines (j @ CHR ''\<newline>'' # ''/* WEBOUT END */\<newline>'')
        = (j @ ''\<newline>'') # readlines ''/* WEBOUT END */\<newline>''"
    using assms by (rule readlines_first)
  then show ?thesis by simp
qed

lemma readlines_single:
  "CHR ''\<newline>'' \<notin> set w \<Longrightarrow> readlines (w @ ''\<newline>'') = [w @ ''\<newline>'']"
  using readlines_first[of w "[]"] by simp

lemma readlines_headed:
  "CHR ''\<newline>'' \<notin> set w \<Longrightarrow>
   readlines (''**/\<newline>'' @ w @ ''\<newline>'') = [''**/\<newline>'', w @ ''\<newline>'']"
  using readlines_single[of w] by simp

text \<open>
  Claim C1, amended. The target is the begin-marker line, one junk line that is not a
  marker, and the end-marker line. Spliced with a single one-line source that has no
  documentation header, the junk line is removed and nothing is written in its place:
  the source is discarded whole, and the result is the two marker lines. When the same
  line follows a header-closing line in the source, the junk line is replaced by exactly
  one write statement for that line, between the two marker lines.
\<close>

theorem splice_scenario:
  "CHR ''\<newline>'' \<notin> set j \<and> j @ ''\<newline>'' \<noteq> ''/* WEBOUT BEGIN */\<newline>''
     \<and> j @ ''\<newline>'' \<noteq> ''/* WEBOUT END */\<newline>''
     \<and> CHR ''\<newline>'' \<notin> set w \<and> w \<noteq> ''**/'' \<longrightarrow>
   splice (''/* WEBOUT BEGIN */\<newline>'' @ j @ ''\<newline>'' @ ''/* WEBOUT END */\<newline>'') [w @ ''\<newline>'']
     = ''/* WEBOUT BEGIN */\<newline>'' @ ''/* WEBOUT END */\<newline>''
   \<and> splice (''/* WEBOUT BEGIN */\<newline>'' @ j @ ''\<newline>'' @ ''/* WEBOUT END */\<newline>'')
        [''**/\<newline>'' @ w @ ''\<newline>'']
     = ''/* WEBOUT BEGIN */\<newline>'' @ put (w @ ''\<newline>'') @ ''/* WEBOUT END */\<newline>''"
proof (intro impI, elim conjE)
  assume j: "CHR ''\<newline>'' \<notin> set j" "j @ ''\<newline>'' \<noteq> ''/* WEBOUT BEGIN */\<newline>''"
    "j @ ''\<newline>'' \<noteq> ''/* WEBOUT END */\<newline>''"
    and w: "CHR ''\<newline>'' \<notin> set w" "w \<noteq> ''**/''"
  have wl: "w @ ''\<newline>'' \<noteq> ''**/\<newline>''" using w(2) by simp
  have a: "splice (''/* WEBOUT BEGIN */\<newline>'' @ j @ ''\<newline>'' @ ''/* WEBOUT END */\<newline>'') [w @ ''\<newline>'']
     = ''/* WEBOUT BEGIN */\<newline>'' @ ''/* WEBOUT END */\<newline>''"
    unfolding splice_def readlines_three[OF j(1)] using j(2,3) wl
    by (simp add: readlines_single[OF w(1)])
  have b: "splice (''/* WEBOUT BEGIN */\<newline>'' @ j @ ''\<newline>'' @ ''/* WEBOUT END */\<newline>'')
        [''**/\<newline>'' @ w @ ''\<newline>'']
     = ''/* WEBOUT BEGIN */\<newline>'' @ put (w @ ''\<newline>'') @ ''/* WEBOUT END */\<newline>''"
    unfolding splice_def readlines_three[OF j(1)] using j(2,3) wl
    by (simp add: readlines_headed[OF w(1), simplified])
  show "splice (''/* WEBOUT BEGIN */\<newline>'' @ j @ ''\<newline>'' @ ''/* WEBOUT END */\<newline>'') [w @ ''\<newline>'']
     = ''/* WEBOUT BEGIN */\<newline>'' @ ''/* WEBOUT END */\<newline>''
   \<and> splice (''/* WEBOUT BEGIN */\<newline>'' @ j @ ''\<newline>'' @ ''/* WEBOUT END */\<newline>'')
        [''**/\<newline>'' @ w @ ''\<newline>'']
     = ''/* WEBOUT BEGIN */\<newline>'' @ put (w @ ''\<newline>'') @ ''/* WEBOUT END */\<newline>''"
    using a b by blast
qed


text \<open>
  Claim C1 as stated fails: for the source \<^verbatim>\<open>hello\<close> without a header the result holds
  the two marker lines and no write statement.
\<close>

theorem splice_scenario_counterexample:
  "splice ''/* WEBOUT BEGIN */\<newline>junk\<newline>/* WEBOUT END */\<newline>'' [''hello\<newline>'']
     = ''/* WEBOUT BEGIN */\<newline>/* WEBOUT END */\<newline>''
   \<and> splice ''/* WEBOUT BEGIN */\<newline>junk\<newline>/* WEBOUT END */\<newline>'' [''hello\<newline>'']
     \<noteq> ''/* WEBOUT BEGIN */\<newline>'' @ put ''hello\<newline>'' @ ''/* WEBOUT END */\<newline>''"
proof -
  have a: "splice ''/* WEBOUT BEGIN */\<newline>junk\<newline>/* WEBOUT END */\<newline>'' [''hello\<newline>'']
     = ''/* WEBOUT BEGIN */\<newline>/* WEBOUT END */\<newline>''"
    by (simp add: splice_def)
  show ?thesis unfolding a by (simp add: put_def)
qed

text \<open>
  The hypotheses hold for the junk line \<^verbatim>\<open>junk\<close> and the source line \<^verbatim>\<open>hello\<close>.
\<close>

theorem splice_scenario_witness:
  "CHR ''\<newline>'' \<notin> set ''junk'' \<and> ''junk'' @ ''\<newline>'' \<noteq> ''/* WEBOUT BEGIN */\<newline>''
     \<and> ''junk'' @ ''\<newline>'' \<noteq> ''/* WEBOUT END */\<newline>''
     \<and> CHR ''\<newline>'' \<notin> set ''hello'' \<and> ''hello'' \<noteq> ''**/''
   \<and> splice (''/* WEBOUT BEGIN */\<newline>'' @ ''junk'' @ ''\<newline>'' @ ''/* WEBOUT END */\<newline>'')
        [''hello'' @ ''\<newline>'']
     = ''/* WEBOUT BEGIN */\<newline>'' @ ''/* WEBOUT END */\<newline>''
   \<and> splice (''/* WEBOUT BEGIN */\<newline>'' @ ''junk'' @ ''\<newline>'' @ ''/* WEBOUT END */\<newline>'')
        [''**/\<newline>'' @ ''hello'' @ ''\<newline>'']
     = ''/* WEBOUT BEGIN */\<newline>'' @ put (''hello'' @ ''\<newline>'') @ ''/* WEBOUT END */\<newline>''"
proof -
  have h: "CHR ''\<newline>'' \<notin> set ''junk'' \<and> ''junk'' @ ''\<newline>'' \<noteq> ''/* WEBOUT BEGIN */\<newline>''
     \<and> ''junk'' @ ''\<newline>'' \<noteq> ''/* WEBOUT END */\<newline>''
     \<and> CHR ''\<newline>'' \<notin> set ''hello'' \<and> ''hello'' \<noteq> ''**/''"
    by simp
  from splice_scenario[of "''junk''" "''hello''"] h show ?thesis by blast
qed

text \<open>
  Claim C6 as stated fails: a target without begin marker whose first line ends in a
  blank and whose last line has no line feed is not copied byte for byte.
\<close>

theorem splice_identity_counterexample:
  "splice ''a \<newline>b'' [''**/\<newline>x\<newline>'', [], []] = ''a\<newline>b\<newline>''
   \<and> ''/* WEBOUT BEGIN */\<newline>'' \<notin> set (readlines ''a \<newline>b'')
   \<and> splice ''a \<newline>b'' [''**/\<newline>x\<newline>'', [], []] \<noteq> ''a \<newline>b''"
  by (simp add: splice_def rstrip_def isspace_def)

text \<open>
  Claim C6, amended. When the begin-marker line never occurs in the target, every line is
  copied with its trailing whitespace trimmed and a single line feed appended; the
  output equals the input exactly when every line of the input already has that form.
\<close>

theorem splice_without_begin:
  "(''/* WEBOUT BEGIN */\<newline>'' \<notin> set (readlines infile) \<longrightarrow>
      splice infile sources = concat (map (\<lambda>line. rstrip line @ ''\<newline>'') (readlines infile)))
   \<and> (''/* WEBOUT BEGIN */\<newline>'' \<notin> set (readlines infile)
        \<and> (\<forall>line \<in> set (readlines infile). rstrip line @ ''\<newline>'' = line) \<longrightarrow>
      splice infile sources = infile)"
proof -
  have a: "''/* WEBOUT BEGIN */\<newline>'' \<notin> set (readlines infile) \<Longrightarrow>
      splice infile sources = concat (map (\<lambda>line. rstrip line @ ''\<newline>'') (readlines infile))"
    by (simp add: splice_def splice_loop_copy)
  have b: "(\<forall>line \<in> set (readlines infile). rstrip line @ ''\<newline>'' = line) \<Longrightarrow>
      concat (map (\<lambda>line. rstrip line @ ''\<newline>'') (readlines infile)) = infile"
  proof -
    assume "\<forall>line \<in> set (readlines infile). rstrip line @ ''\<newline>'' = line"
    then have "map (\<lambda>line. rstrip line @ ''\<newline>'') (readlines infile) = readlines infile"
      by (simp add: map_idI)
    then show ?thesis by (simp add: concat_readlines)
  qed
  show ?thesis using a b by auto
qed

text \<open>
  A target of two clean lines is copied unchanged.
\<close>

theorem splice_without_begin_witness:
  "''/* WEBOUT BEGIN */\<newline>'' \<notin> set (readlines ''a\<newline>b\<newline>'')
   \<and> readlines ''a\<newline>b\<newline>'' = [''a\<newline>'', ''b\<newline>'']
   \<and> rstrip ''a\<newline>'' @ ''\<newline>'' = ''a\<newline>'' \<and> rstrip ''b\<newline>'' @ ''\<newline>'' = ''b\<newline>''
   \<and> splice ''a\<newline>b\<newline>'' [''**/\<newline>x\<newline>'', [], []] = ''a\<newline>b\<newline>''"
proof -
  have r: "readlines ''a\<newline>b\<newline>'' = [''a\<newline>'', ''b\<newline>'']" by simp
  have a: "rstrip ''a\<newline>'' @ ''\<newline>'' = ''a\<newline>''" by (simp add: rstrip_def isspace_def)
  have b: "rstrip ''b\<newline>'' @ ''\<newline>'' = ''b\<newline>''" by (simp add: rstrip_def isspace_def)
  have h: "''/* WEBOUT BEGIN */\<newline>'' \<notin> set (readlines ''a\<newline>b\<newline>'')
   \<and> (\<forall>line \<in> set (readlines ''a\<newline>b\<newline>''). rstrip line @ ''\<newline>'' = line)"
    unfolding r using a b by simp
  from splice_without_begin[of "''a\<newline>b\<newline>''" "[''**/\<newline>x\<newline>'', [], []]"] h r a b
  show ?thesis by blast
qed

section \<open>The splicing stage on the file system\<close>

lemma open_w_Inr: "open_w fs p = Inr fs1 \<Longrightarrow> fs1 = AList.update p (File []) fs"
  by (auto simp: open_w_def Let_def split: option.splits node.splits if_splits)

lemma open_r_Inr_iff: "open_r fs p = Inr s \<longleftrightarrow> map_of fs p = Some (File s)"
  by (auto simp: open_r_def Let_def split: option.splits node.splits)

lemma open_r_update_other:
  "p \<noteq> q \<Longrightarrow> open_r (AList.update q n fs) p = Inr s \<longleftrightarrow> open_r fs p = Inr s"
  by (simp add: open_r_Inr_iff update_conv')

lemma open_r_update_same: "open_r (AList.update p (File s) fs) p = Inr s"
  by (simp add: open_r_Inr_iff update_conv')

lemma temp_neq: "file \<noteq> file @ ''TEMP''"
  by simp

lemma open_r_after_replace:
  "open_r (os_rename (file @ ''TEMP'') file
            (os_remove file (fs_write fs1 (file @ ''TEMP'') outfile))) file = Inr outfile"
proof -
  let ?t = "file @ ''TEMP''"
  let ?fs3 = "os_remove file (fs_write fs1 ?t outfile)"
  have "map_of ?fs3 ?t = Some (File outfile)"
    by (simp add: os_remove_def fs_write_def delete_conv' update_conv')
  then show ?thesis
    by (simp add: os_rename_def open_r_update_same)
qed

lemma splice_file_ok:
  assumes "open_r fs ''base/mp_jsonout.sas'' = Inr webout0"
    and "open_r fs (if file = ''viya/mv_createwebservice.sas''
                    then ''viya/mv_webout.sas'' else ''meta/mm_webout.sas'') = Inr webout1"
    and "open_r fs ''base/mf_getuser.sas'' = Inr webout2"
    and "open_w fs (file @ ''TEMP'') = Inr fs1"
    and "open_r fs file = Inr infile"
  shows "snd (splice_file file fs) = None"
    and "open_r (fst (splice_file file fs)) file = Inr (splice infile [webout0, webout1, webout2])"
proof -
  have fs1: "fs1 = AList.update (file @ ''TEMP'') (File []) fs"
    using assms(4) by (rule open_w_Inr)
  have r: "open_r fs1 file = Inr infile"
    unfolding fs1 using assms(5) by (simp add: open_r_update_other)
  have e: "splice_file file fs =
      (os_rename (file @ ''TEMP'') file
        (os_remove file (fs_write fs1 (file @ ''TEMP'') (splice infile [webout0, webout1, webout2]))),
       None)"
    unfolding splice_file_def using assms(1,2,3,4) r by (simp add: Let_def)
  show "snd (splice_file file fs) = None" unfolding e by simp
  show "open_r (fst (splice_file file fs)) file = Inr (splice infile [webout0, webout1, webout2])"
    unfolding e by (simp add: open_r_after_replace)
qed

lemma splice_file_None:
  assumes "splice_file file fs = (fs', None)"
  shows "\<exists>webout0 webout1 webout2 infile.
      open_r fs ''base/mp_jsonout.sas'' = Inr webout0
    \<and> open_r fs (if file = ''viya/mv_createwebservice.sas''
                    then ''viya/mv_webout.sas'' else ''meta/mm_webout.sas'') = Inr webout1
    \<and> open_r fs ''base/mf_getuser.sas'' = Inr webout2
    \<and> open_r fs file = Inr infile
    \<and> open_r fs' file = Inr (splice infile [webout0, webout1, webout2])"
proof -
  from assms obtain webout0 where w0: "open_r fs ''base/mp_jsonout.sas'' = Inr webout0"
    unfolding splice_file_def by (auto split: sum.splits)
  from assms w0 obtain webout1 where w1: "open_r fs (if file = ''viya/mv_createwebservice.sas''
                    then ''viya/mv_webout.sas'' else ''meta/mm_webout.sas'') = Inr webout1"
    unfolding splice_file_def by (auto split: sum.splits)
  from assms w0 w1 obtain webout2 where w2: "open_r fs ''base/mf_getuser.sas'' = Inr webout2"
    unfolding splice_file_def by (auto split: sum.splits)
  from assms w0 w1 w2 obtain fs1 where t: "open_w fs (file @ ''TEMP'') = Inr fs1"
    unfolding splice_file_def by (auto split: sum.splits)
  have fs1: "fs1 = AList.update (file @ ''TEMP'') (File []) fs"
    using t by (rule open_w_Inr)
  from assms w0 w1 w2 t obtain infile where i1: "open_r fs1 file = Inr infile"
    unfolding splice_file_def by (auto split: sum.splits)
  then have i: "open_r fs file = Inr infile"
    unfolding fs1 by (simp add: open_r_update_other)
  from splice_file_ok(2)[OF w0 w1 w2 t i] assms
  have "open_r fs' file = Inr (splice infile [webout0, webout1, webout2])" by simp
  with w0 w1 w2 i show ?thesis by blast
qed

section \<open>Claims about the splicing stage\<close>

text \<open>
  Claim C5 as stated fails for a target with a second begin-marker line and no end
  marker: the second begin-marker line, an original line after the first begin marker,
  is written to the output again.
\<close>

theorem splice_missing_end_counterexample:
  "splice ''/* WEBOUT BEGIN */\<newline>x\<newline>/* WEBOUT BEGIN */\<newline>y\<newline>'' [''**/\<newline>s\<newline>'', [], []]
     = ''/* WEBOUT BEGIN */\<newline>'' @ put ''s\<newline>'' @ ''/* WEBOUT BEGIN */\<newline>''
   \<and> ''/* WEBOUT END */\<newline>'' \<notin> set (readlines ''/* WEBOUT BEGIN */\<newline>x\<newline>/* WEBOUT BEGIN */\<newline>y\<newline>'')
   \<and> splice ''/* WEBOUT BEGIN */\<newline>x\<newline>/* WEBOUT BEGIN */\<newline>y\<newline>'' [''**/\<newline>s\<newline>'', [], []]
     \<noteq> ''/* WEBOUT BEGIN */\<newline>'' @ put ''s\<newline>''"
  by (simp add: splice_def)

text \<open>
  Claim C5, amended. Let the target hold a begin-marker line with no end-marker line after
  it, and let the three sources and the target be readable and the temporary file
  writable. Then the run of the splice on this target raises no exception, and the new
  target is what the loop produced up to and including that begin marker, followed only
  by one begin-marker line for each further begin-marker line: every other original
  line after the begin marker is lost. With no further begin marker nothing follows.
\<close>

theorem splice_missing_end:
  assumes "open_r fs ''base/mp_jsonout.sas'' = Inr webout0"
    and "open_r fs (if file = ''viya/mv_createwebservice.sas''
                    then ''viya/mv_webout.sas'' else ''meta/mm_webout.sas'') = Inr webout1"
    and "open_r fs ''base/mf_getuser.sas'' = Inr webout2"
    and "open_w fs (file @ ''TEMP'') = Inr fs1"
    and "open_r fs file = Inr infile"
    and "readlines infile = pre @ ''/* WEBOUT BEGIN */\<newline>'' # post"
    and "''/* WEBOUT END */\<newline>'' \<notin> set post"
  shows "snd (splice_file file fs) = None
    \<and> open_r (fst (splice_file file fs)) file =
        Inr (splice_loop 0 [readlines webout0, readlines webout1, readlines webout2] []
               (pre @ [''/* WEBOUT BEGIN */\<newline>''])
             @ concat (filter (\<lambda>line. line = ''/* WEBOUT BEGIN */\<newline>'') post))
    \<and> (''/* WEBOUT BEGIN */\<newline>'' \<notin> set post \<longrightarrow>
        open_r (fst (splice_file file fs)) file =
        Inr (splice_loop 0 [readlines webout0, readlines webout1, readlines webout2] []
               (pre @ [''/* WEBOUT BEGIN */\<newline>''])))"
proof -
  let ?hs = "[readlines webout0, readlines webout1, readlines webout2]"
  let ?B = "''/* WEBOUT BEGIN */\<newline>''"
  have "splice infile [webout0, webout1, webout2] = splice_loop 0 ?hs [] (pre @ ?B # post)"
    by (simp add: splice_def assms(6))
  also have "\<dots> = splice_loop (Suc 0) (map (\<lambda>_. []) ?hs) (splice_loop 0 ?hs [] (pre @ [?B])) post"
    by (rule splice_loop_begin)
  also have "\<dots> = splice_loop 0 ?hs [] (pre @ [?B]) @ concat (filter (\<lambda>line. line = ?B) post)"
    using assms(7) by (rule splice_loop_suppress)
  finally have s: "splice infile [webout0, webout1, webout2] =
      splice_loop 0 ?hs [] (pre @ [?B]) @ concat (filter (\<lambda>line. line = ?B) post)" .
  have f: "?B \<notin> set post \<Longrightarrow> filter (\<lambda>line. line = ?B) post = []"
    by (induction post) auto
  show ?thesis
    using splice_file_ok[OF assms(1-5)] s f by auto
qed

text \<open>
  Claim C8. Two runs of the splice on one target, on two file systems in which the target
  and its three sources have the same contents and which may differ in everything else
  (other files, the order of the entries), both completing, leave the same text in the
  target.
\<close>

theorem splice_file_deterministic:
  assumes "splice_file file fs1 = (fs1', None)" and "splice_file file fs2 = (fs2', None)"
    and "open_r fs1 ''base/mp_jsonout.sas'' = open_r fs2 ''base/mp_jsonout.sas''"
    and "open_r fs1 (if file = ''viya/mv_createwebservice.sas''
                     then ''viya/mv_webout.sas'' else ''meta/mm_webout.sas'')
         = open_r fs2 (if file = ''viya/mv_createwebservice.sas''
                       then ''viya/mv_webout.sas'' else ''meta/mm_webout.sas'')"
    and "open_r fs1 ''base/mf_getuser.sas'' = open_r fs2 ''base/mf_getuser.sas''"
    and "open_r fs1 file = open_r fs2 file"
  shows "open_r fs1' file = open_r fs2' file"
proof -
  from splice_file_None[OF assms(1)] obtain a0 a1 a2 ai where
    a: "open_r fs1 ''base/mp_jsonout.sas'' = Inr a0"
       "open_r fs1 (if file = ''viya/mv_createwebservice.sas''
                     then ''viya/mv_webout.sas'' else ''meta/mm_webout.sas'') = Inr a1"
       "open_r fs1 ''base/mf_getuser.sas'' = Inr a2"
       "open_r fs1 file = Inr ai"
       "open_r fs1' file = Inr (splice ai [a0, a1, a2])"
    by blast
  from splice_file_None[OF assms(2)] obtain b0 b1 b2 bi where
    b: "open_r fs2 ''base/mp_jsonout.sas'' = Inr b0"
       "open_r fs2 (if file = ''viya/mv_createwebservice.sas''
                     then ''viya/mv_webout.sas'' else ''meta/mm_webout.sas'') = Inr b1"
       "open_r fs2 ''base/mf_getuser.sas'' = Inr b2"
       "open_r fs2 file = Inr bi"
       "open_r fs2' file = Inr (splice bi [b0, b1, b2])"
    by blast
  have "a0 = b0" using a(1) b(1) assms(3) by simp
  moreover have "a1 = b1" using a(2) b(2) assms(4) by simp
  moreover have "a2 = b2" using a(3) b(3) assms(5) by simp
  moreover have "ai = bi" using a(4) b(4) assms(6) by simp
  ultimately show ?thesis using a(5) b(5) by simp
qed

lemma dirname_temp:
  "os_path_dirname (''viya/mv_createwebservice.sas'' @ ''TEMP'') = ''viya''"
  by (simp add: os_path_dirname_def rfind_def)

text \<open>
  The hypotheses hold for a target of three lines whose second line is the begin marker.
\<close>

theorem splice_missing_end_witness:
  "open_r [(''base'', Dir), (''viya'', Dir), (''base/mp_jsonout.sas'', File ''**/\<newline>s\<newline>''),
           (''viya/mv_webout.sas'', File []), (''base/mf_getuser.sas'', File []),
           (''viya/mv_createwebservice.sas'', File ''a\<newline>/* WEBOUT BEGIN */\<newline>x\<newline>'')]
          ''viya/mv_createwebservice.sas''
     = Inr ''a\<newline>/* WEBOUT BEGIN */\<newline>x\<newline>''
   \<and> readlines ''a\<newline>/* WEBOUT BEGIN */\<newline>x\<newline>'' = [''a\<newline>''] @ ''/* WEBOUT BEGIN */\<newline>'' # [''x\<newline>'']
   \<and> ''/* WEBOUT END */\<newline>'' \<notin> set [''x\<newline>'']
   \<and> snd (splice_file ''viya/mv_createwebservice.sas''
        [(''base'', Dir), (''viya'', Dir), (''base/mp_jsonout.sas'', File ''**/\<newline>s\<newline>''),
         (''viya/mv_webout.sas'', File []), (''base/mf_getuser.sas'', File []),
         (''viya/mv_createwebservice.sas'', File ''a\<newline>/* WEBOUT BEGIN */\<newline>x\<newline>'')]) = None
   \<and> open_r (fst (splice_file ''viya/mv_createwebservice.sas''
        [(''base'', Dir), (''viya'', Dir), (''base/mp_jsonout.sas'', File ''**/\<newline>s\<newline>''),
         (''viya/mv_webout.sas'', File []), (''base/mf_getuser.sas'', File []),
         (''viya/mv_createwebservice.sas'', File ''a\<newline>/* WEBOUT BEGIN */\<newline>x\<newline>'')]))
        ''viya/mv_createwebservice.sas''
     = Inr (''a\<newline>'' @ ''/* WEBOUT BEGIN */\<newline>'' @ put ''s\<newline>'')"
proof -
  let ?fs = "[(''base'', Dir), (''viya'', Dir), (''base/mp_jsonout.sas'', File ''**/\<newline>s\<newline>''),
           (''viya/mv_webout.sas'', File []), (''base/mf_getuser.sas'', File []),
           (''viya/mv_createwebservice.sas'', File ''a\<newline>/* WEBOUT BEGIN */\<newline>x\<newline>'')]"
  let ?file = "''viya/mv_createwebservice.sas''"
  have h1: "open_r ?fs ''base/mp_jsonout.sas'' = Inr ''**/\<newline>s\<newline>''" by (simp add: open_r_def)
  have h2: "open_r ?fs (if ?file = ''viya/mv_createwebservice.sas''
                    then ''viya/mv_webout.sas'' else ''meta/mm_webout.sas'') = Inr []"
    by (simp add: open_r_def)
  have h3: "open_r ?fs ''base/mf_getuser.sas'' = Inr []" by (simp add: open_r_def)
  have h4: "open_w ?fs (?file @ ''TEMP'') = Inr (AList.update (?file @ ''TEMP'') (File []) ?fs)"
    unfolding open_w_def dirname_temp by simp
  have h5: "open_r ?fs ?file = Inr ''a\<newline>/* WEBOUT BEGIN */\<newline>x\<newline>''" by (simp add: open_r_def)
  have h6: "readlines ''a\<newline>/* WEBOUT BEGIN */\<newline>x\<newline>'' = [''a\<newline>''] @ ''/* WEBOUT BEGIN */\<newline>'' # [''x\<newline>'']"
    by simp
  have h7: "''/* WEBOUT END */\<newline>'' \<notin> set [''x\<newline>'']" by simp
  have r: "rstrip ''a\<newline>'' = ''a''" by (simp add: rstrip_def isspace_def)
  have l: "splice_loop 0 [readlines ''**/\<newline>s\<newline>'', readlines [], readlines []] []
               ([''a\<newline>''] @ [''/* WEBOUT BEGIN */\<newline>''])
           = ''a\<newline>'' @ ''/* WEBOUT BEGIN */\<newline>'' @ put ''s\<newline>''"
    by (simp add: r)
  from splice_missing_end[OF h1 h2 h3 h4 h5 h6 h7] h5 h6 h7 l
  show ?thesis by simp
qed


text \<open>
  Two file systems that list the same target and sources in different orders, one with
  an additional file: both runs complete and leave the same target.
\<close>

theorem splice_file_deterministic_witness:
  "splice_file ''viya/mv_createwebservice.sas''
     [(''base'', Dir), (''viya'', Dir), (''base/mp_jsonout.sas'', File ''**/\<newline>s\<newline>''),
      (''viya/mv_webout.sas'', File []), (''base/mf_getuser.sas'', File []),
      (''viya/mv_createwebservice.sas'', File ''/* WEBOUT BEGIN */\<newline>'')]
   = (fst (splice_file ''viya/mv_createwebservice.sas''
     [(''base'', Dir), (''viya'', Dir), (''base/mp_jsonout.sas'', File ''**/\<newline>s\<newline>''),
      (''viya/mv_webout.sas'', File []), (''base/mf_getuser.sas'', File []),
      (''viya/mv_createwebservice.sas'', File ''/* WEBOUT BEGIN */\<newline>'')]), None)
   \<and> splice_file ''viya/mv_createwebservice.sas''
     [(''viya/mv_createwebservice.sas'', File ''/* WEBOUT BEGIN */\<newline>''), (''other'', File ''o''),
      (''viya'', Dir), (''base/mf_getuser.sas'', File []), (''viya/mv_webout.sas'', File []),
      (''base/mp_jsonout.sas'', File ''**/\<newline>s\<newline>'')]
   = (fst (splice_file ''viya/mv_createwebservice.sas''
     [(''viya/mv_createwebservice.sas'', File ''/* WEBOUT BEGIN */\<newline>''), (''other'', File ''o''),
      (''viya'', Dir), (''base/mf_getuser.sas'', File []), (''viya/mv_webout.sas'', File []),
      (''base/mp_jsonout.sas'', File ''**/\<newline>s\<newline>'')]), None)
   \<and> open_r (fst (splice_file ''viya/mv_createwebservice.sas''
     [(''base'', Dir), (''viya'', Dir), (''base/mp_jsonout.sas'', File ''**/\<newline>s\<newline>''),
      (''viya/mv_webout.sas'', File []), (''base/mf_getuser.sas'', File []),
      (''viya/mv_createwebservice.sas'', File ''/* WEBOUT BEGIN */\<newline>'')]))
      ''viya/mv_createwebservice.sas''
   = open_r (fst (splice_file ''viya/mv_createwebservice.sas''
     [(''viya/mv_createwebservice.sas'', File ''/* WEBOUT BEGIN */\<newline>''), (''other'', File ''o''),
      (''viya'', Dir), (''base/mf_getuser.sas'', File []), (''viya/mv_webout.sas'', File []),
      (''base/mp_jsonout.sas'', File ''**/\<newline>s\<newline>'')]))
      ''viya/mv_createwebservice.sas''"
proof -
  let ?file = "''viya/mv_createwebservice.sas''"
  let ?A = "[(''base'', Dir), (''viya'', Dir), (''base/mp_jsonout.sas'', File ''**/\<newline>s\<newline>''),
      (''viya/mv_webout.sas'', File []), (''base/mf_getuser.sas'', File []),
      (?file, File ''/* WEBOUT BEGIN */\<newline>'')]"
  let ?B = "[(?file, File ''/* WEBOUT BEGIN */\<newline>''), (''other'', File ''o''),
      (''viya'', Dir), (''base/mf_getuser.sas'', File []), (''viya/mv_webout.sas'', File []),
      (''base/mp_jsonout.sas'', File ''**/\<newline>s\<newline>'')]"
  have a1: "open_r ?A ''base/mp_jsonout.sas'' = Inr ''**/\<newline>s\<newline>''" by (simp add: open_r_def)
  have a2: "open_r ?A (if ?file = ''viya/mv_createwebservice.sas''
                    then ''viya/mv_webout.sas'' else ''meta/mm_webout.sas'') = Inr []"
    by (simp add: open_r_def)
  have a3: "open_r ?A ''base/mf_getuser.sas'' = Inr []" by (simp add: open_r_def)
  have a4: "open_w ?A (?file @ ''TEMP'') = Inr (AList.update (?file @ ''TEMP'') (File []) ?A)"
    unfolding open_w_def dirname_temp by simp
  have a5: "open_r ?A ?file = Inr ''/* WEBOUT BEGIN */\<newline>''" by (simp add: open_r_def)
  have b1: "open_r ?B ''base/mp_jsonout.sas'' = Inr ''**/\<newline>s\<newline>''" by (simp add: open_r_def)
  have b2: "open_r ?B (if ?file = ''viya/mv_createwebservice.sas''
                    then ''viya/mv_webout.sas'' else ''meta/mm_webout.sas'') = Inr []"
    by (simp add: open_r_def)
  have b3: "open_r ?B ''base/mf_getuser.sas'' = Inr []" by (simp add: open_r_def)
  have b4: "open_w ?B (?file @ ''TEMP'') = Inr (AList.update (?file @ ''TEMP'') (File []) ?B)"
    unfolding open_w_def dirname_temp by simp
  have b5: "open_r ?B ?file = Inr ''/* WEBOUT BEGIN */\<newline>''" by (simp add: open_r_def)
  have A: "splice_file ?file ?A = (fst (splice_file ?file ?A), None)"
    using splice_file_ok(1)[OF a1 a2 a3 a4 a5] by (simp add: prod_eq_iff)
  have B: "splice_file ?file ?B = (fst (splice_file ?file ?B), None)"
    using splice_file_ok(1)[OF b1 b2 b3 b4 b5] by (simp add: prod_eq_iff)
  have e1: "open_r ?A ''base/mp_jsonout.sas'' = open_r ?B ''base/mp_jsonout.sas''"
    by (simp only: a1 b1)
  have e2: "open_r ?A (if ?file = ''viya/mv_createwebservice.sas''
                     then ''viya/mv_webout.sas'' else ''meta/mm_webout.sas'')
         = open_r ?B (if ?file = ''viya/mv_createwebservice.sas''
                       then ''viya/mv_webout.sas'' else ''meta/mm_webout.sas'')"
    by (simp only: a2 b2)
  have e3: "open_r ?A ''base/mf_getuser.sas'' = open_r ?B ''base/mf_getuser.sas''"
    by (simp only: a3 b3)
  have e4: "open_r ?A ?file = open_r ?B ?file" by (simp only: a5 b5)
  from splice_file_deterministic[OF A B e1 e2 e3 e4] A B show ?thesis by blast
qed

section \<open>The embedding stage without input\<close>

text \<open>
  Claim C10. When the directory \<^verbatim>\<open>lua\<close> exists and none of its entries matches
  \<^verbatim>\<open>*.lua\<close>, the embedding stage ends with the exception \<^verbatim>\<open>NameError\<close> for the name
  \<^verbatim>\<open>ml\<close> (line 27), and so does the whole run, with the file system as it was at the start:
  no later stage has run.
\<close>

theorem no_lua_files_NameError:
  "iterdir fs ''lua'' = Inr entries \<and> filter (match_ext ''.lua'') entries = [] \<longrightarrow>
   embed_stage fs = (fs, Some (NameError ''ml'')) \<and> build fs = (fs, Some (NameError ''ml''))"
  by (simp add: embed_stage_def build_def and_then_def)

text \<open>
  A file system whose \<^verbatim>\<open>lua\<close> directory holds one text file.
\<close>

theorem no_lua_files_NameError_witness:
  "iterdir [(''lua'', Dir), (''lua/readme.txt'', File ''x''), (''base'', Dir)] ''lua''
     = Inr [''lua/readme.txt'']
   \<and> filter (match_ext ''.lua'') [''lua/readme.txt''] = []
   \<and> embed_stage [(''lua'', Dir), (''lua/readme.txt'', File ''x''), (''base'', Dir)]
     = ([(''lua'', Dir), (''lua/readme.txt'', File ''x''), (''base'', Dir)], Some (NameError ''ml''))
   \<and> build [(''lua'', Dir), (''lua/readme.txt'', File ''x''), (''base'', Dir)]
     = ([(''lua'', Dir), (''lua/readme.txt'', File ''x''), (''base'', Dir)], Some (NameError ''ml''))"
proof -
  have h: "iterdir [(''lua'', Dir), (''lua/readme.txt'', File ''x''), (''base'', Dir)] ''lua''
     = Inr [''lua/readme.txt'']
   \<and> filter (match_ext ''.lua'') [''lua/readme.txt''] = []"
    by (simp add: iterdir_def os_path_dirname_def os_path_basename_def rfind_def match_ext_def
        endswith_def)
  from no_lua_files_NameError[of "[(''lua'', Dir), (''lua/readme.txt'', File ''x''), (''base'', Dir)]"
      "[''lua/readme.txt'']"] h
  show ?thesis by blast
qed

section \<open>The concatenation stage leaves its inputs untouched\<close>

lemma filter_update_other_dir:
  "os_path_dirname q \<noteq> d \<Longrightarrow>
   filter (\<lambda>p. os_path_dirname p = d) (map fst (AList.update q v fs))
     = filter (\<lambda>p. os_path_dirname p = d) (map fst fs)"
  by (induction fs) auto

lemma dirname_no_slash: "CHR ''/'' \<notin> set p \<Longrightarrow> os_path_dirname p = []"
  by (simp add: os_path_dirname_def rfind_def)

lemma folders_cases:
  "folder \<in> set folders \<Longrightarrow>
   folder = ''base'' \<or> folder = ''meta'' \<or> folder = ''metax'' \<or> folder = ''viya'' \<or> folder = ''lua''"
  by (simp add: folders_def)

lemma folder_facts:
  assumes "folder \<in> set folders"
  shows "folder \<noteq> []" and "CHR ''/'' \<notin> set folder" and "length folder \<le> 5"
  using folders_cases[OF assms] by auto

lemma mc_toplevel:
  "folder \<in> set folders \<Longrightarrow> os_path_dirname (''mc_'' @ folder @ ''.sas'') = []"
  by (rule dirname_no_slash) (simp add: folder_facts)

lemma all_toplevel: "os_path_dirname ''all.sas'' = []"
  by (rule dirname_no_slash) simp

lemma folder_not_mc: "d \<in> set folders \<Longrightarrow> d \<noteq> ''mc_'' @ g @ ''.sas''"
  using folder_facts(3)[of d] by (auto dest: arg_cong[where f=length])

lemma folder_not_all: "d \<in> set folders \<Longrightarrow> d \<noteq> ''all.sas''"
  using folder_facts(3)[of d] by (auto dest: arg_cong[where f=length])

lemma iterdir_update:
  assumes "os_path_dirname q \<noteq> d" and "q \<noteq> d"
  shows "iterdir (AList.update q v fs) d = iterdir fs d"
  using assms
  by (auto simp: iterdir_def update_conv' filter_update_other_dir split: option.splits node.splits)

lemma untouched_update:
  assumes u: "untouched fs0 fs" and q: "os_path_dirname q = []" and n: "\<And>d. d \<in> set folders \<Longrightarrow> q \<noteq> d"
  shows "untouched fs0 (AList.update q v fs)"
proof -
  have a: "\<And>p. os_path_dirname p \<noteq> [] \<Longrightarrow> map_of (AList.update q v fs) p = map_of fs0 p"
  proof -
    fix p assume p: "os_path_dirname p \<noteq> []"
    then have "p \<noteq> q" using q by auto
    then show "map_of (AList.update q v fs) p = map_of fs0 p"
      using u p by (simp add: untouched_def update_conv')
  qed
  have b: "\<And>d. d \<in> set folders \<Longrightarrow> iterdir (AList.update q v fs) d = iterdir fs0 d"
  proof -
    fix d assume d: "d \<in> set folders"
    then have "os_path_dirname q \<noteq> d" using q folder_facts(1)[OF d] by simp
    then have "iterdir (AList.update q v fs) d = iterdir fs d"
      using n[OF d] by (rule iterdir_update)
    then show "iterdir (AList.update q v fs) d = iterdir fs0 d"
      using u d by (simp add: untouched_def)
  qed
  show ?thesis unfolding untouched_def using a b by blast
qed

lemma untouched_refl: "untouched fs fs"
  by (simp add: untouched_def)

lemma read_all_eq:
  "read_all fs out ps = (r, None) \<Longrightarrow> r = out @ concat (map (read_text fs) ps)"
proof (induction ps arbitrary: out)
  case Nil
  then show ?case by simp
next
  case (Cons p ps)
  from Cons.prems obtain s where s: "open_r fs p = Inr s"
    by (auto split: sum.splits)
  with Cons.prems have "read_all fs (out @ s) ps = (r, None)" by simp
  from Cons.IH[OF this] s show ?case by (simp add: read_text_def)
qed

lemma read_text_eq:
  "read_text fs p = (case map_of fs p of Some (File s) \<Rightarrow> s | _ \<Rightarrow> [])"
  by (auto simp: read_text_def open_r_def Let_def split: option.splits node.splits)

lemma read_text_map_of: "map_of fs p = map_of fs0 p \<Longrightarrow> read_text fs p = read_text fs0 p"
  by (simp add: read_text_eq)

lemma iterdir_members:
  "iterdir fs d = Inr entries \<Longrightarrow> p \<in> set entries \<Longrightarrow> os_path_dirname p = d"
  by (auto simp: iterdir_def split: option.splits node.splits)

lemma concat_folder_ok:
  assumes u: "untouched fs0 fs" and d: "folder \<in> set folders"
    and r: "concat_folder folder (fs, f) = ((fs', f'), None)"
  shows "untouched fs0 fs'" and "f' = f @ category fs0 folder"
proof -
  let ?mc = "''mc_'' @ folder @ ''.sas''"
  from r obtain entries where it: "iterdir fs folder = Inr entries"
    unfolding concat_folder_def by (auto split: sum.splits)
  let ?filenames = "sort (filter (match_ext ''.sas'') entries)"
  from r it obtain fs1 where ow: "open_w fs ?mc = Inr fs1"
    unfolding concat_folder_def by (auto simp: Let_def split: sum.splits)
  have fs1: "fs1 = AList.update ?mc (File []) fs" using ow by (rule open_w_Inr)
  from r it ow obtain outfile where ra: "read_all fs1 [] ?filenames = (outfile, None)"
    unfolding concat_folder_def by (auto simp: Let_def split: sum.splits prod.splits option.splits)
  let ?fs2 = "fs_write fs1 ?mc outfile"
  have c: "open_r ?fs2 ?mc = Inr outfile"
    by (simp add: fs_write_def open_r_update_same)
  from r it ow ra c have res: "fs' = ?fs2" "f' = f @ outfile"
    unfolding concat_folder_def by (simp_all add: Let_def)
  have n: "\<And>g. g \<in> set folders \<Longrightarrow> ?mc \<noteq> g"
    using folder_not_mc by metis
  have u1: "untouched fs0 fs1"
    unfolding fs1 using u mc_toplevel[OF d] n by (rule untouched_update)
  have u2: "untouched fs0 ?fs2"
    unfolding fs_write_def using u1 mc_toplevel[OF d] n by (rule untouched_update)
  show "untouched fs0 fs'" using u2 res(1) by simp
  have it0: "iterdir fs0 folder = Inr entries"
    using u d it by (simp add: untouched_def)
  have mem: "\<And>p. p \<in> set ?filenames \<Longrightarrow> read_text fs1 p = read_text fs0 p"
  proof -
    fix p assume "p \<in> set ?filenames"
    then have "p \<in> set entries" by simp
    then have "os_path_dirname p = folder" using it by (rule iterdir_members[rotated])
    then have "os_path_dirname p \<noteq> []" using folder_facts(1)[OF d] by simp
    then have "map_of fs1 p = map_of fs0 p" using u1 by (simp add: untouched_def)
    then show "read_text fs1 p = read_text fs0 p" by (rule read_text_map_of)
  qed
  have "outfile = concat (map (read_text fs1) ?filenames)"
    using read_all_eq[OF ra] by simp
  also have "map (read_text fs1) ?filenames = map (read_text fs0) ?filenames"
    using mem by (intro map_cong) auto
  finally have "outfile = category fs0 folder"
    by (simp add: category_def listing_def it0)
  then show "f' = f @ category fs0 folder" using res(2) by simp
qed

lemma concat_loop_ok:
  assumes "untouched fs0 fs" and "set fl \<subseteq> set folders"
    and "concat_loop fl (fs, f) = ((fs', f'), None)"
  shows "untouched fs0 fs' \<and> f' = f @ concat (map (category fs0) fl)"
  using assms
proof (induction fl arbitrary: fs f)
  case Nil
  then show ?case by simp
next
  case (Cons folder rest)
  from Cons.prems(3) obtain fsm fm where
    m: "concat_folder folder (fs, f) = ((fsm, fm), None)"
    and l: "concat_loop rest (fsm, fm) = ((fs', f'), None)"
    by (auto split: prod.splits option.splits)
  have d: "folder \<in> set folders" using Cons.prems(2) by simp
  from concat_folder_ok[OF Cons.prems(1) d m]
  have um: "untouched fs0 fsm" and fm: "fm = f @ category fs0 folder" by simp_all
  have "set rest \<subseteq> set folders" using Cons.prems(2) by simp
  from Cons.IH[OF um this l] fm show ?case by simp
qed

section \<open>Re-ordering the directory listings\<close>

lemma concat_stage_ok:
  assumes "concat_stage fs = (fs', None)"
  shows "open_r fs' ''all.sas'' = Inr (header @ concat (map (category fs) folders))"
proof -
  from assms obtain fs1 where ow: "open_w fs ''all.sas'' = Inr fs1"
    unfolding concat_stage_def by (auto split: sum.splits)
  have fs1: "fs1 = AList.update ''all.sas'' (File []) fs" using ow by (rule open_w_Inr)
  have n: "\<And>g. g \<in> set folders \<Longrightarrow> ''all.sas'' \<noteq> g"
    using folder_not_all by metis
  have u1: "untouched fs fs1"
    unfolding fs1 using untouched_refl all_toplevel n by (rule untouched_update)
  from assms ow obtain fsl f where
    l: "concat_loop folders (fs1, header) = ((fsl, f), None)"
    and res: "fs' = fs_write fsl ''all.sas'' f"
    unfolding concat_stage_def by (auto split: prod.splits)
  from concat_loop_ok[OF u1 subset_refl l]
  have "f = header @ concat (map (category fs) folders)" by simp
  then show ?thesis unfolding res by (simp add: fs_write_def open_r_update_same)
qed

lemma sort_mset_cong: "mset xs = mset ys \<Longrightarrow> sort xs = sort (ys :: string list)"
  by (rule properties_for_sort) simp_all

lemma reordered_refl: "reordered fs fs"
  by (simp add: reordered_def)

lemma reordered_open_r: "reordered a b \<Longrightarrow> open_r a p = open_r b p"
proof -
  assume "reordered a b"
  then have m: "map_of a = map_of b" by (simp add: reordered_def)
  show ?thesis unfolding open_r_def m ..
qed

lemma mset_keys_update:
  "mset (map fst (AList.update q v al)) =
     (if map_of al q = None then add_mset q (mset (map fst al)) else mset (map fst al))"
  by (induction al) auto

lemma reordered_update:
  assumes "reordered a b"
  shows "reordered (AList.update q v a) (AList.update q v b)"
proof -
  have m: "map_of a = map_of b" and k: "mset (map fst a) = mset (map fst b)"
    using assms by (simp_all only: reordered_def)
  have "mset (map fst (AList.update q v a)) = mset (map fst (AList.update q v b))"
    unfolding mset_keys_update m k ..
  moreover have "map_of (AList.update q v a) = map_of (AList.update q v b)"
    by (simp only: update_conv' m)
  ultimately show ?thesis unfolding reordered_def by blast
qed

lemma reordered_open_w:
  assumes "reordered a b"
  shows "(open_w a p = Inl e \<longrightarrow> open_w b p = Inl e)
       \<and> (open_w a p = Inr a' \<longrightarrow> open_w b p = Inr (AList.update p (File []) b)
            \<and> a' = AList.update p (File []) a)"
proof -
  have m: "map_of a = map_of b" using assms by (simp add: reordered_def)
  show ?thesis
    unfolding open_w_def Let_def m
    by (auto split: option.splits node.splits)
qed

lemma reordered_iterdir:
  assumes "reordered a b"
  shows "(iterdir a d = Inl e \<longrightarrow> iterdir b d = Inl e)
       \<and> (iterdir a d = Inr xs \<longrightarrow> (\<exists>ys. iterdir b d = Inr ys \<and> mset ys = mset xs))"
proof -
  have m: "map_of a = map_of b" and k: "mset (map fst a) = mset (map fst b)"
    using assms by (simp_all add: reordered_def)
  have f: "mset (filter (\<lambda>p. os_path_dirname p = d) (map fst b))
         = mset (filter (\<lambda>p. os_path_dirname p = d) (map fst a))"
    by (simp only: mset_filter k)
  show ?thesis
    unfolding iterdir_def m using f
    by (auto split: option.splits node.splits)
qed

lemma reordered_read_all: "reordered a b \<Longrightarrow> read_all a out ps = read_all b out ps"
  by (induction ps arbitrary: out) (auto simp: reordered_open_r[of a b] split: sum.splits)

lemma reordered_concat_folder:
  assumes ab: "reordered a b"
  shows "\<exists>b'. concat_folder d (b, f)
            = ((b', snd (fst (concat_folder d (a, f)))), snd (concat_folder d (a, f)))
          \<and> reordered (fst (fst (concat_folder d (a, f)))) b'"
proof (cases "iterdir a d")
  case (Inl e)
  then have "iterdir b d = Inl e" using reordered_iterdir[OF ab] by blast
  with Inl ab show ?thesis by (simp add: concat_folder_def)
next
  case (Inr xs)
  then obtain ys where ys: "iterdir b d = Inr ys" "mset ys = mset xs"
    using reordered_iterdir[OF ab] by blast
  let ?mc = "''mc_'' @ d @ ''.sas''"
  have fn: "sort (filter (match_ext ''.sas'') ys) = sort (filter (match_ext ''.sas'') xs)"
    by (rule sort_mset_cong) (simp only: mset_filter ys(2))
  let ?fn = "sort (filter (match_ext ''.sas'') xs)"
  show ?thesis
  proof (cases "open_w a ?mc")
    case (Inl e)
    then have "open_w b ?mc = Inl e" using reordered_open_w[OF ab] by blast
    with Inl Inr ys(1) ab show ?thesis by (simp add: concat_folder_def Let_def)
  next
    case a1: (Inr a1)
    then have b1: "open_w b ?mc = Inr (AList.update ?mc (File []) b)"
      and a1': "a1 = AList.update ?mc (File []) a"
      using reordered_open_w[OF ab] by blast+
    let ?b1 = "AList.update ?mc (File []) b"
    have r1: "reordered a1 ?b1" unfolding a1' using ab by (rule reordered_update)
    have ra: "read_all ?b1 [] ?fn = read_all a1 [] ?fn"
      using reordered_read_all[OF r1] by simp
    obtain outfile r where o: "read_all a1 [] ?fn = (outfile, r)" by (cases "read_all a1 [] ?fn")
    have r2: "reordered (fs_write a1 ?mc outfile) (fs_write ?b1 ?mc outfile)"
      unfolding fs_write_def using r1 by (rule reordered_update)
    have c: "open_r (fs_write a1 ?mc outfile) ?mc = Inr outfile"
      "open_r (fs_write ?b1 ?mc outfile) ?mc = Inr outfile"
      by (simp_all add: fs_write_def open_r_update_same)
    show ?thesis
    proof (cases r)
      case None
      have "concat_folder d (a, f) = ((fs_write a1 ?mc outfile, f @ outfile), None)"
        using Inr a1 o None c(1) by (simp add: concat_folder_def Let_def)
      moreover have "concat_folder d (b, f) = ((fs_write ?b1 ?mc outfile, f @ outfile), None)"
        using ys(1) fn b1 ra o None c(2) by (simp add: concat_folder_def Let_def)
      ultimately show ?thesis using r2 by simp
    next
      case (Some e)
      have "concat_folder d (a, f) = ((fs_write a1 ?mc outfile, f), Some e)"
        using Inr a1 o Some by (simp add: concat_folder_def Let_def)
      moreover have "concat_folder d (b, f) = ((fs_write ?b1 ?mc outfile, f), Some e)"
        using ys(1) fn b1 ra o Some by (simp add: concat_folder_def Let_def)
      ultimately show ?thesis using r2 by simp
    qed
  qed
qed

lemma reordered_concat_loop:
  "reordered a b \<Longrightarrow>
   \<exists>b'. concat_loop fl (b, f)
            = ((b', snd (fst (concat_loop fl (a, f)))), snd (concat_loop fl (a, f)))
          \<and> reordered (fst (fst (concat_loop fl (a, f)))) b'"
proof (induction fl arbitrary: a b f)
  case Nil
  then show ?case by simp
next
  case (Cons d rest)
  obtain a1 f1 r where ra: "concat_folder d (a, f) = ((a1, f1), r)"
    by (metis prod.collapse)
  from reordered_concat_folder[OF Cons.prems, of d f] ra obtain b1 where
    rb: "concat_folder d (b, f) = ((b1, f1), r)" and r1: "reordered a1 b1"
    by auto
  show ?case
  proof (cases r)
    case (Some e)
    with ra rb r1 show ?thesis by simp
  next
    case None
    from Cons.IH[OF r1, of f1] ra rb None show ?thesis by simp
  qed
qed

section \<open>The final aggregate artifact\<close>

lemma reordered_concat_stage:
  assumes ab: "reordered a b"
  shows "snd (concat_stage b) = snd (concat_stage a)
       \<and> reordered (fst (concat_stage a)) (fst (concat_stage b))"
proof (cases "open_w a ''all.sas''")
  case (Inl e)
  then have "open_w b ''all.sas'' = Inl e" using reordered_open_w[OF ab] by blast
  with Inl ab show ?thesis by (simp add: concat_stage_def)
next
  case (Inr a1)
  then have b1: "open_w b ''all.sas'' = Inr (AList.update ''all.sas'' (File []) b)"
    and a1: "a1 = AList.update ''all.sas'' (File []) a"
    using reordered_open_w[OF ab] by blast+
  let ?b1 = "AList.update ''all.sas'' (File []) b"
  have r1: "reordered a1 ?b1" unfolding a1 using ab by (rule reordered_update)
  obtain al f r where la: "concat_loop folders (a1, header) = ((al, f), r)"
    by (metis prod.collapse)
  from reordered_concat_loop[OF r1, of folders header] la obtain bl where
    lb: "concat_loop folders (?b1, header) = ((bl, f), r)" and rl: "reordered al bl"
    by auto
  have "reordered (fs_write al ''all.sas'' f) (fs_write bl ''all.sas'' f)"
    unfolding fs_write_def using rl by (rule reordered_update)
  then show ?thesis using Inr b1 la lb by (simp add: concat_stage_def)
qed

lemma reordered_category:
  assumes ab: "reordered a b"
  shows "category b folder = category a folder"
proof -
  have m: "map_of a = map_of b" using ab by (simp add: reordered_def)
  have rt: "read_text b = read_text a"
    by (rule ext) (simp add: read_text_eq m)
  have "sort (filter (match_ext ''.sas'') (listing b folder))
      = sort (filter (match_ext ''.sas'') (listing a folder))"
  proof (cases "iterdir a folder")
    case (Inl e)
    then have "iterdir b folder = Inl e" using reordered_iterdir[OF ab] by blast
    with Inl show ?thesis by (simp add: listing_def)
  next
    case (Inr xs)
    then obtain ys where ys: "iterdir b folder = Inr ys" "mset ys = mset xs"
      using reordered_iterdir[OF ab] by blast
    have "sort (filter (match_ext ''.sas'') ys) = sort (filter (match_ext ''.sas'') xs)"
      by (rule sort_mset_cong) (simp only: mset_filter ys(2))
    with Inr ys(1) show ?thesis by (simp add: listing_def)
  qed
  then show ?thesis by (simp add: category_def rt)
qed

lemma perm_reordered:
  assumes d: "distinct (map fst fs)" and p: "mset fs2 = mset fs"
  shows "reordered fs fs2"
proof -
  have k: "mset (map fst fs) = mset (map fst fs2)" using p by simp
  then have d2: "distinct (map fst fs2)" using d by (metis mset_eq_imp_distinct_iff)
  have "set fs = set fs2" using p by (metis mset_eq_setD)
  then have "map_of fs = map_of fs2" using d d2 by (simp add: map_of_inject_set)
  with k show ?thesis by (simp add: reordered_def)
qed

lemma map_of_text_mode:
  "map_of (text_mode disk) p =
     map_option (\<lambda>n. case n of File s \<Rightarrow> File (universal_newlines s) | Dir \<Rightarrow> Dir) (map_of disk p)"
  unfolding text_mode_def by (induction disk) auto

lemma keys_text_mode: "map fst (text_mode disk) = map fst disk"
  unfolding text_mode_def by (induction disk) auto

lemma read_text_text_mode: "read_text (text_mode disk) p = universal_newlines (read_text disk p)"
  unfolding read_text_eq map_of_text_mode
  by (auto split: option.splits node.splits)

lemma listing_text_mode: "listing (text_mode disk) folder = listing disk folder"
  unfolding listing_def iterdir_def map_of_text_mode keys_text_mode
  by (auto split: option.splits node.splits)

lemma category_text_mode:
  "category (text_mode disk) folder =
     concat (map (\<lambda>p. universal_newlines (read_text disk p))
                 (sort (filter (match_ext ''.sas'') (listing disk folder))))"
proof -
  have "read_text (text_mode disk) = (\<lambda>p. universal_newlines (read_text disk p))"
    by (rule ext) (rule read_text_text_mode)
  then show ?thesis unfolding category_def listing_text_mode by simp
qed

text \<open>
  Claim C7 as worded does not hold, in two ways. The aggregate of a category is not made
  of all its member files: with \<^verbatim>\<open>base/a.sas\<close>, \<^verbatim>\<open>base/b.sas\<close> and \<^verbatim>\<open>base/notes.txt\<close> the
  artifact is the header followed by the first two only, since line 88 keeps the entries
  matching \<^verbatim>\<open>*.sas\<close>. And the copy is not byte for byte: a member stored as A, CR, LF
  reaches the artifact as A, LF, since lines 90--95 read and write through text-mode
  handles.
\<close>

theorem concat_stage_raw_counterexample:
  "snd (concat_stage [(''base'', Dir), (''meta'', Dir), (''metax'', Dir), (''viya'', Dir), (''lua'', Dir),
      (''base/a.sas'', File ''A''), (''base/b.sas'', File ''B''), (''base/notes.txt'', File ''n'')]) = None
   \<and> open_r (fst (concat_stage [(''base'', Dir), (''meta'', Dir), (''metax'', Dir), (''viya'', Dir), (''lua'', Dir),
      (''base/a.sas'', File ''A''), (''base/b.sas'', File ''B''), (''base/notes.txt'', File ''n'')])) ''all.sas''
       = Inr (header @ ''AB'')
   \<and> header @ concat (map (raw_category [(''base'', Dir), (''meta'', Dir), (''metax'', Dir), (''viya'', Dir), (''lua'', Dir),
      (''base/a.sas'', File ''A''), (''base/b.sas'', File ''B''), (''base/notes.txt'', File ''n'')]) folders)
       = header @ ''ABn''
   \<and> snd (concat_stage (text_mode [(''base'', Dir), (''meta'', Dir), (''metax'', Dir), (''viya'', Dir), (''lua'', Dir),
      (''base/a.sas'', File [CHR ''A'', CHR 0x0D, CHR ''\<newline>''])])) = None
   \<and> open_r (fst (concat_stage (text_mode [(''base'', Dir), (''meta'', Dir), (''metax'', Dir), (''viya'', Dir), (''lua'', Dir),
      (''base/a.sas'', File [CHR ''A'', CHR 0x0D, CHR ''\<newline>''])]))) ''all.sas''
       = Inr (header @ [CHR ''A'', CHR ''\<newline>''])
   \<and> header @ concat (map (raw_category [(''base'', Dir), (''meta'', Dir), (''metax'', Dir), (''viya'', Dir), (''lua'', Dir),
      (''base/a.sas'', File [CHR ''A'', CHR 0x0D, CHR ''\<newline>''])]) folders)
       = header @ [CHR ''A'', CHR 0x0D, CHR ''\<newline>'']"
proof -
  let ?fs = "[(''base'', Dir), (''meta'', Dir), (''metax'', Dir), (''viya'', Dir), (''lua'', Dir),
      (''base/a.sas'', File ''A''), (''base/b.sas'', File ''B''), (''base/notes.txt'', File ''n'')]"
  let ?disk = "[(''base'', Dir), (''meta'', Dir), (''metax'', Dir), (''viya'', Dir), (''lua'', Dir),
      (''base/a.sas'', File [CHR ''A'', CHR 0x0D, CHR ''\<newline>''])]"
  have s1: "snd (concat_stage ?fs) = None" by code_simp
  then have c1: "concat_stage ?fs = (fst (concat_stage ?fs), None)" by (simp add: prod_eq_iff)
  have k1: "concat (map (category ?fs) folders) = ''AB''" by code_simp
  have a1: "open_r (fst (concat_stage ?fs)) ''all.sas'' = Inr (header @ ''AB'')"
    using concat_stage_ok[OF c1] k1 by simp
  have r1: "concat (map (raw_category ?fs) folders) = ''ABn''" by code_simp
  have s2: "snd (concat_stage (text_mode ?disk)) = None" by code_simp
  then have c2: "concat_stage (text_mode ?disk) = (fst (concat_stage (text_mode ?disk)), None)"
    by (simp add: prod_eq_iff)
  have k2: "concat (map (category (text_mode ?disk)) folders) = [CHR ''A'', CHR ''\<newline>'']"
    by code_simp
  have a2: "open_r (fst (concat_stage (text_mode ?disk))) ''all.sas''
      = Inr (header @ [CHR ''A'', CHR ''\<newline>''])"
    using concat_stage_ok[OF c2] k2 by simp
  have r2: "concat (map (raw_category ?disk) folders) = [CHR ''A'', CHR 0x0D, CHR ''\<newline>'']"
    by code_simp
  show ?thesis using s1 a1 r1 s2 a2 r2 by simp
qed

text \<open>
  Claim C7, amended. When the concatenation stage completes, \<^verbatim>\<open>all.sas\<close> holds the
  generated header followed by the per-category aggregates in the fixed order base, meta,
  metax, viya, lua. The aggregate of a category is the concatenation, in sorted order of
  their paths, of the texts of those entries of its directory that match \<^verbatim>\<open>*.sas\<close>, as
  the files were when the stage began; other entries are left out. The text of a member
  is what a text-mode read delivers, not its stored bytes: on a disk of stored bytes
  every CR LF pair and every lone CR of a member reaches the aggregate as LF. On a file
  system that lists the same entries in another order the stage ends the same way and
  leaves the same text in \<^verbatim>\<open>all.sas\<close>.
\<close>

theorem concat_stage_artifact:
  "(concat_stage fs = (fs', None) \<longrightarrow>
      open_r fs' ''all.sas'' = Inr (header @ concat (map (category fs) folders)))
   \<and> folders = [''base'', ''meta'', ''metax'', ''viya'', ''lua'']
   \<and> category fs folder =
       concat (map (read_text fs) (sort (filter (match_ext ''.sas'') (listing fs folder))))
   \<and> category (text_mode disk) folder =
       concat (map (\<lambda>p. universal_newlines (read_text disk p))
                   (sort (filter (match_ext ''.sas'') (listing disk folder))))
   \<and> (distinct (map fst fs) \<and> mset fs2 = mset fs \<longrightarrow>
        snd (concat_stage fs2) = snd (concat_stage fs)
        \<and> open_r (fst (concat_stage fs2)) ''all.sas'' = open_r (fst (concat_stage fs)) ''all.sas''
        \<and> category fs2 folder = category fs folder)"
proof -
  have a: "concat_stage fs = (fs', None) \<Longrightarrow>
      open_r fs' ''all.sas'' = Inr (header @ concat (map (category fs) folders))"
    by (rule concat_stage_ok)
  have b: "distinct (map fst fs) \<and> mset fs2 = mset fs \<Longrightarrow>
        snd (concat_stage fs2) = snd (concat_stage fs)
        \<and> open_r (fst (concat_stage fs2)) ''all.sas'' = open_r (fst (concat_stage fs)) ''all.sas''
        \<and> category fs2 folder = category fs folder"
  proof -
    assume h: "distinct (map fst fs) \<and> mset fs2 = mset fs"
    then have r: "reordered fs fs2" using perm_reordered by blast
    from reordered_concat_stage[OF r] reordered_category[OF r, of folder]
      reordered_open_r[of "fst (concat_stage fs)" "fst (concat_stage fs2)" "''all.sas''"]
    show ?thesis by simp
  qed
  have c: "category fs folder =
       concat (map (read_text fs) (sort (filter (match_ext ''.sas'') (listing fs folder))))"
    by (simp add: category_def)
  show ?thesis using a b c category_text_mode[of disk folder] by (simp add: folders_def)
qed

text \<open>
  A tree whose \<^verbatim>\<open>base\<close> directory lists \<^verbatim>\<open>b.sas\<close> before \<^verbatim>\<open>a.sas\<close>: the stage completes,
  the artifact is the header followed by the texts in sorted order, and the reversed
  listing gives the same artifact.
\<close>

theorem concat_stage_artifact_witness:
  "concat_stage [(''base'', Dir), (''meta'', Dir), (''metax'', Dir), (''viya'', Dir), (''lua'', Dir),
      (''base/b.sas'', File ''B''), (''base/a.sas'', File ''A''), (''base/notes.txt'', File ''n''),
      (''meta/c.sas'', File ''C'')] = (fst (concat_stage [(''base'', Dir), (''meta'', Dir), (''metax'', Dir), (''viya'', Dir), (''lua'', Dir),
      (''base/b.sas'', File ''B''), (''base/a.sas'', File ''A''), (''base/notes.txt'', File ''n''),
      (''meta/c.sas'', File ''C'')]), None)
   \<and> open_r (fst (concat_stage [(''base'', Dir), (''meta'', Dir), (''metax'', Dir), (''viya'', Dir), (''lua'', Dir),
      (''base/b.sas'', File ''B''), (''base/a.sas'', File ''A''), (''base/notes.txt'', File ''n''),
      (''meta/c.sas'', File ''C'')])) ''all.sas'' = Inr (header @ ''A'' @ ''B'' @ ''C'')
   \<and> distinct (map fst [(''base'', Dir), (''meta'', Dir), (''metax'', Dir), (''viya'', Dir), (''lua'', Dir),
      (''base/b.sas'', File ''B''), (''base/a.sas'', File ''A''), (''base/notes.txt'', File ''n''),
      (''meta/c.sas'', File ''C'')])
   \<and> mset (rev [(''base'', Dir), (''meta'', Dir), (''metax'', Dir), (''viya'', Dir), (''lua'', Dir),
      (''base/b.sas'', File ''B''), (''base/a.sas'', File ''A''), (''base/notes.txt'', File ''n''),
      (''meta/c.sas'', File ''C'')]) = mset [(''base'', Dir), (''meta'', Dir), (''metax'', Dir), (''viya'', Dir), (''lua'', Dir),
      (''base/b.sas'', File ''B''), (''base/a.sas'', File ''A''), (''base/notes.txt'', File ''n''),
      (''meta/c.sas'', File ''C'')]
   \<and> snd (concat_stage (rev [(''base'', Dir), (''meta'', Dir), (''metax'', Dir), (''viya'', Dir), (''lua'', Dir),
      (''base/b.sas'', File ''B''), (''base/a.sas'', File ''A''), (''base/notes.txt'', File ''n''),
      (''meta/c.sas'', File ''C'')])) = None
   \<and> open_r (fst (concat_stage (rev [(''base'', Dir), (''meta'', Dir), (''metax'', Dir), (''viya'', Dir), (''lua'', Dir),
      (''base/b.sas'', File ''B''), (''base/a.sas'', File ''A''), (''base/notes.txt'', File ''n''),
      (''meta/c.sas'', File ''C'')]))) ''all.sas'' = Inr (header @ ''A'' @ ''B'' @ ''C'')"
proof -
  let ?fs = "[(''base'', Dir), (''meta'', Dir), (''metax'', Dir), (''viya'', Dir), (''lua'', Dir),
      (''base/b.sas'', File ''B''), (''base/a.sas'', File ''A''), (''base/notes.txt'', File ''n''),
      (''meta/c.sas'', File ''C'')]"
  have s: "snd (concat_stage ?fs) = None" by code_simp
  then have c: "concat_stage ?fs = (fst (concat_stage ?fs), None)"
    by (simp add: prod_eq_iff)
  have k: "concat (map (category ?fs) folders) = ''ABC''" by code_simp
  have d: "distinct (map fst ?fs)" by simp
  have p: "mset (rev ?fs) = mset ?fs" by (rule mset_rev)
  have dp: "distinct (map fst ?fs) \<and> mset (rev ?fs) = mset ?fs" using d p by (rule conjI)
  note t = concat_stage_artifact[of ?fs "fst (concat_stage ?fs)" "''base''" "[]" "rev ?fs"]
  have a: "open_r (fst (concat_stage ?fs)) ''all.sas'' = Inr (header @ ''A'' @ ''B'' @ ''C'')"
    using t c k by simp
  have b: "snd (concat_stage (rev ?fs)) = None
     \<and> open_r (fst (concat_stage (rev ?fs))) ''all.sas'' = Inr (header @ ''A'' @ ''B'' @ ''C'')"
    using t dp s a by simp
  show ?thesis using c a d p b by blast
qed

section \<open>File handles of the three stages\<close>


















end
